theory Spec2Isabelle
  imports Main
begin

section \<open>Time, errors and log entries\<close>

text \<open>
  Instants and durations are counted in nanoseconds, as Go's \<open>time.Duration\<close> is.
  An instant is an unbounded integer: \<open>Time.Add\<close>, \<open>Time.After\<close> and \<open>time.Since\<close>
  are addition, strict comparison and subtraction on it.
\<close>

type_synonym time = int
type_synonym duration = int

definition Second :: duration where "Second = 1000000000"
definition Minute :: duration where "Minute = 60 * Second"
definition Hour :: duration where "Hour = 60 * Minute"

text \<open>
  A Go \<open>error\<close> value is its message, apart from the two sentinel values the code
  compares with \<open>==\<close>: \<open>sql.ErrNoRows\<close> and \<open>redis.Nil\<close>.
  \<open>fmt.Errorf("p: %w", err)\<close> prefixes the message.
\<close>

datatype error = ErrNoRows | RedisNil | Error string

fun message :: "error \<Rightarrow> string" where
  "message ErrNoRows = ''sql: no rows in result set''"
| "message RedisNil = ''redis: nil''"
| "message (Error m) = m"

definition wrapf :: "string \<Rightarrow> error \<Rightarrow> error" where
  "wrapf p e = Error (p @ '': '' @ message e)"

text \<open>A \<open>[]byte\<close> is \<open>nil\<close> (\<open>None\<close>) or a byte sequence.\<close>

type_synonym bytes = "string option"

text \<open>A \<open>slog\<close> record: level, message and the key/value attributes.\<close>

datatype level = LevelDebug | LevelInfo | LevelWarn | LevelError

type_synonym log_entry = "level \<times> string \<times> (string \<times> string) list"

section \<open>cache/memory.go: the in-memory LRU cache\<close>

text \<open>
  \<open>items\<close> maps a key to its item; \<open>lru\<close> is the \<open>container/list\<close> of the items, front
  (most recently used) first, each element written as the key of the item it holds.
  The \<open>element\<close> back pointer of an item is the position of its key in \<open>lru\<close>.
\<close>

record cacheItem =
  item_key :: string
  item_value :: bytes
  item_expiresAt :: time

record MemoryCache =
  maxSize :: int
  items :: "string \<rightharpoonup> cacheItem"
  lru :: "string list"

definition NewMemoryCache :: "int \<Rightarrow> MemoryCache" where
  "NewMemoryCache m =
     \<lparr>maxSize = (if m \<le> 0 then 1000 else m), items = Map.empty, lru = []\<rparr>"

definition MoveToFront :: "string \<Rightarrow> string list \<Rightarrow> string list" where
  "MoveToFront k l = k # remove1 k l"

definition removeItem :: "string \<Rightarrow> MemoryCache \<Rightarrow> MemoryCache" where
  "removeItem k c = c\<lparr>lru := remove1 k (lru c), items := (items c)(k := None)\<rparr>"

definition evictOldest :: "MemoryCache \<Rightarrow> MemoryCache" where
  "evictOldest c = (case lru c of [] \<Rightarrow> c | _ # _ \<Rightarrow> removeItem (last (lru c)) c)"

definition MemoryCache_Get ::
  "time \<Rightarrow> string \<Rightarrow> MemoryCache \<Rightarrow> (bytes \<times> error option) \<times> MemoryCache" where
  "MemoryCache_Get now k c =
     (case items c k of
        None \<Rightarrow> ((None, None), c)
      | Some item \<Rightarrow>
          if now > item_expiresAt item
          then ((None, None), removeItem (item_key item) c)
          else ((item_value item, None), c\<lparr>lru := MoveToFront (item_key item) (lru c)\<rparr>))"

definition MemoryCache_Set ::
  "time \<Rightarrow> string \<Rightarrow> bytes \<Rightarrow> duration \<Rightarrow> MemoryCache \<Rightarrow> error option \<times> MemoryCache" where
  "MemoryCache_Set now k v ttl c =
     (case items c k of
        Some item \<Rightarrow>
          (None, c\<lparr>items := (items c)(k \<mapsto> item\<lparr>item_value := v, item_expiresAt := now + ttl\<rparr>),
                   lru := MoveToFront (item_key item) (lru c)\<rparr>)
      | None \<Rightarrow>
          (let c1 = (if int (length (lru c)) \<ge> maxSize c then evictOldest c else c);
               item = \<lparr>item_key = k, item_value = v, item_expiresAt = now + ttl\<rparr>
           in (None, c1\<lparr>lru := k # lru c1, items := (items c1)(k \<mapsto> item)\<rparr>)))"

definition MemoryCache_Delete :: "string \<Rightarrow> MemoryCache \<Rightarrow> error option \<times> MemoryCache" where
  "MemoryCache_Delete k c =
     (case items c k of
        Some item \<Rightarrow> (None, removeItem (item_key item) c)
      | None \<Rightarrow> (None, c))"

definition MemoryCache_Exists :: "time \<Rightarrow> string \<Rightarrow> MemoryCache \<Rightarrow> bool" where
  "MemoryCache_Exists now k c =
     (case items c k of
        None \<Rightarrow> False
      | Some item \<Rightarrow> if now > item_expiresAt item then False else True)"

definition MemoryCache_Clear :: "MemoryCache \<Rightarrow> error option \<times> MemoryCache" where
  "MemoryCache_Clear c = (None, c\<lparr>items := Map.empty, lru := []\<rparr>)"

text \<open>One round of the \<open>cleanupExpired\<close> loop, run under the lock at instant \<open>now\<close>.\<close>

definition expired :: "time \<Rightarrow> MemoryCache \<Rightarrow> string \<Rightarrow> bool" where
  "expired now c k = (case items c k of None \<Rightarrow> False | Some item \<Rightarrow> now > item_expiresAt item)"

definition cleanupExpired :: "time \<Rightarrow> MemoryCache \<Rightarrow> MemoryCache" where
  "cleanupExpired now c =
     c\<lparr>lru := filter (\<lambda>k. \<not> expired now c k) (lru c),
       items := (\<lambda>k. if expired now c k then None else items c k)\<rparr>"

text \<open>A sequence of operations on one cache, each at its own instant.\<close>

datatype cache_op =
    OpGet string
  | OpSet string bytes duration
  | OpDelete string
  | OpExists string
  | OpClear
  | OpSweep

fun apply_op :: "time \<times> cache_op \<Rightarrow> MemoryCache \<Rightarrow> MemoryCache" where
  "apply_op (now, OpGet k) c = snd (MemoryCache_Get now k c)"
| "apply_op (now, OpSet k v ttl) c = snd (MemoryCache_Set now k v ttl c)"
| "apply_op (now, OpDelete k) c = snd (MemoryCache_Delete k c)"
| "apply_op (now, OpExists k) c = c"
| "apply_op (now, OpClear) c = snd (MemoryCache_Clear c)"
| "apply_op (now, OpSweep) c = cleanupExpired now c"

fun run_ops :: "(time \<times> cache_op) list \<Rightarrow> MemoryCache \<Rightarrow> MemoryCache" where
  "run_ops [] c = c"
| "run_ops (x # xs) c = run_ops xs (apply_op x c)"

text \<open>
  The key an operation touches: every \<open>Set\<close>, and a \<open>Get\<close> that finds an unexpired
  entry. \<open>last_touch ops c n m\<close> numbers the operations from \<open>n\<close> and records for each
  key the number of the last operation that touched it.
\<close>

fun touched :: "time \<times> cache_op \<Rightarrow> MemoryCache \<Rightarrow> string option" where
  "touched (now, OpSet k v ttl) c = Some k"
| "touched (now, OpGet k) c =
     (case items c k of
        None \<Rightarrow> None
      | Some item \<Rightarrow> if now > item_expiresAt item then None else Some k)"
| "touched (now, OpDelete k) c = None"
| "touched (now, OpExists k) c = None"
| "touched (now, OpClear) c = None"
| "touched (now, OpSweep) c = None"

fun last_touch ::
  "(time \<times> cache_op) list \<Rightarrow> MemoryCache \<Rightarrow> nat \<Rightarrow> (string \<rightharpoonup> nat) \<Rightarrow> (string \<rightharpoonup> nat)" where
  "last_touch [] c n m = m"
| "last_touch (x # xs) c n m =
     last_touch xs (apply_op x c) (Suc n)
       (case touched x c of Some k \<Rightarrow> m(k \<mapsto> n) | None \<Rightarrow> m)"

section \<open>cache/redis.go: the networked cache\<close>

text \<open>
  \<open>RedisCache\<close> holds a client of a Redis server. The client library and the server are
  outside the repository; the record keeps what the repository's code relies on: a
  command issued at an instant either fails with the error the connection gives it
  (\<open>redis_fault\<close>), or acts on the server's keyspace, where a key holds a value and an
  optional expiry instant. A missing key makes \<open>Get\<close> fail with \<open>redis.Nil\<close>.
\<close>

datatype redis_cmd =
    CmdGet string
  | CmdSet string string duration
  | CmdDel string
  | CmdExists string
  | CmdFlushDB

record RedisCache =
  redis_fault :: "time \<Rightarrow> redis_cmd \<Rightarrow> error option"
  keyspace :: "string \<rightharpoonup> string \<times> time option"

definition KeepTTL :: duration where "KeepTTL = -1"

definition live :: "time \<Rightarrow> (string \<times> time option) option \<Rightarrow> string option" where
  "live now e =
     (case e of
        None \<Rightarrow> None
      | Some (v, None) \<Rightarrow> Some v
      | Some (v, Some expiry) \<Rightarrow> if now > expiry then None else Some v)"

definition client_Get :: "time \<Rightarrow> string \<Rightarrow> RedisCache \<Rightarrow> error + string" where
  "client_Get now k r =
     (case redis_fault r now (CmdGet k) of
        Some e \<Rightarrow> Inl e
      | None \<Rightarrow> (case live now (keyspace r k) of None \<Rightarrow> Inl RedisNil | Some v \<Rightarrow> Inr v))"

definition client_Set ::
  "time \<Rightarrow> string \<Rightarrow> string \<Rightarrow> duration \<Rightarrow> RedisCache \<Rightarrow> error option \<times> RedisCache" where
  "client_Set now k v ttl r =
     (case redis_fault r now (CmdSet k v ttl) of
        Some e \<Rightarrow> (Some e, r)
      | None \<Rightarrow>
          (let expiry =
                 (if ttl > 0 then Some (now + ttl)
                  else if ttl = KeepTTL
                    then (case keyspace r k of
                            None \<Rightarrow> None
                          | Some (old, ex) \<Rightarrow> if live now (keyspace r k) = None then None else ex)
                  else None)
           in (None, r\<lparr>keyspace := (keyspace r)(k \<mapsto> (v, expiry))\<rparr>)))"

definition client_Del :: "time \<Rightarrow> string \<Rightarrow> RedisCache \<Rightarrow> error option \<times> RedisCache" where
  "client_Del now k r =
     (case redis_fault r now (CmdDel k) of
        Some e \<Rightarrow> (Some e, r)
      | None \<Rightarrow> (None, r\<lparr>keyspace := (keyspace r)(k := None)\<rparr>))"

definition client_Exists :: "time \<Rightarrow> string \<Rightarrow> RedisCache \<Rightarrow> error + int" where
  "client_Exists now k r =
     (case redis_fault r now (CmdExists k) of
        Some e \<Rightarrow> Inl e
      | None \<Rightarrow> Inr (if live now (keyspace r k) = None then 0 else 1))"

definition client_FlushDB :: "time \<Rightarrow> RedisCache \<Rightarrow> error option \<times> RedisCache" where
  "client_FlushDB now r =
     (case redis_fault r now CmdFlushDB of
        Some e \<Rightarrow> (Some e, r)
      | None \<Rightarrow> (None, r\<lparr>keyspace := Map.empty\<rparr>))"

text \<open>The methods of \<open>RedisCache\<close>. A \<open>[]byte\<close> is sent as its bytes, \<open>nil\<close> as none.\<close>

definition RedisCache_Get :: "time \<Rightarrow> string \<Rightarrow> RedisCache \<Rightarrow> bytes \<times> error option" where
  "RedisCache_Get now k r =
     (case client_Get now k r of
        Inl err \<Rightarrow> if err = RedisNil then (None, None) else (None, Some err)
      | Inr v \<Rightarrow> (Some v, None))"

definition RedisCache_Set ::
  "time \<Rightarrow> string \<Rightarrow> bytes \<Rightarrow> duration \<Rightarrow> RedisCache \<Rightarrow> error option \<times> RedisCache" where
  "RedisCache_Set now k v ttl r =
     client_Set now k (case v of None \<Rightarrow> [] | Some b \<Rightarrow> b) ttl r"

definition RedisCache_Delete :: "time \<Rightarrow> string \<Rightarrow> RedisCache \<Rightarrow> error option \<times> RedisCache" where
  "RedisCache_Delete now k r = client_Del now k r"

definition RedisCache_Exists :: "time \<Rightarrow> string \<Rightarrow> RedisCache \<Rightarrow> bool" where
  "RedisCache_Exists now k r =
     (case client_Exists now k r of Inl err \<Rightarrow> False | Inr count \<Rightarrow> count > 0)"

definition RedisCache_Clear :: "time \<Rightarrow> RedisCache \<Rightarrow> error option \<times> RedisCache" where
  "RedisCache_Clear now r = client_FlushDB now r"

section \<open>The \<open>Cache\<close> interface and its two implementations\<close>

datatype Cache = Memory MemoryCache | Redis RedisCache

definition Cache_Get :: "time \<Rightarrow> string \<Rightarrow> Cache \<Rightarrow> (bytes \<times> error option) \<times> Cache" where
  "Cache_Get now k c =
     (case c of
        Memory m \<Rightarrow> (fst (MemoryCache_Get now k m), Memory (snd (MemoryCache_Get now k m)))
      | Redis r \<Rightarrow> (RedisCache_Get now k r, Redis r))"

definition Cache_Set ::
  "time \<Rightarrow> string \<Rightarrow> bytes \<Rightarrow> duration \<Rightarrow> Cache \<Rightarrow> error option \<times> Cache" where
  "Cache_Set now k v ttl c =
     (case c of
        Memory m \<Rightarrow> (fst (MemoryCache_Set now k v ttl m), Memory (snd (MemoryCache_Set now k v ttl m)))
      | Redis r \<Rightarrow> (fst (RedisCache_Set now k v ttl r), Redis (snd (RedisCache_Set now k v ttl r))))"

definition Cache_Delete :: "time \<Rightarrow> string \<Rightarrow> Cache \<Rightarrow> error option \<times> Cache" where
  "Cache_Delete now k c =
     (case c of
        Memory m \<Rightarrow> (fst (MemoryCache_Delete k m), Memory (snd (MemoryCache_Delete k m)))
      | Redis r \<Rightarrow> (fst (RedisCache_Delete now k r), Redis (snd (RedisCache_Delete now k r))))"

definition Cache_Exists :: "time \<Rightarrow> string \<Rightarrow> Cache \<Rightarrow> bool" where
  "Cache_Exists now k c =
     (case c of
        Memory m \<Rightarrow> MemoryCache_Exists now k m
      | Redis r \<Rightarrow> RedisCache_Exists now k r)"

section \<open>The cache manager: TTL, freshness metadata, volatile tier\<close>

subsection \<open>\<open>GetCacheTTL\<close>\<close>

text \<open>
  \<open>strconv.Atoi\<close>: an optional sign, then one or more decimal digits, and a value that
  fits a 64-bit \<open>int\<close>; anything else is an error (\<open>None\<close>).
\<close>

definition is_digit :: "char \<Rightarrow> bool" where
  "is_digit ch \<longleftrightarrow> (48::nat) \<le> of_char ch \<and> of_char ch \<le> (57::nat)"

definition digits_value :: "string \<Rightarrow> nat" where
  "digits_value ds = foldl (\<lambda>n ch. n * 10 + (of_char ch - 48)) 0 ds"

definition Atoi :: "string \<Rightarrow> int option" where
  "Atoi s =
     (case s of
        [] \<Rightarrow> None
      | ch # rest \<Rightarrow>
          (let ds = (if ch = CHR ''-'' \<or> ch = CHR ''+'' then rest else s)
           in if ds = [] \<or> \<not> list_all is_digit ds then None
              else (let n = (if ch = CHR ''-'' then - int (digits_value ds) else int (digits_value ds))
                    in if - (2 ^ 63) \<le> n \<and> n < 2 ^ 63 then Some n else None)))"

text \<open>Multiplication of 64-bit signed integers wraps around.\<close>

definition wrap64 :: "int \<Rightarrow> int" where
  "wrap64 x = (x + 2 ^ 63) mod 2 ^ 64 - 2 ^ 63"

text \<open>
  \<open>GetCacheTTL\<close> reads the environment variable \<open>CACHE_TTL_DAYS\<close>; its argument here is
  what \<open>os.Getenv\<close> returns for it (the empty string when unset). The package variable
  \<open>CacheTTL\<close> is its value when the program starts.
\<close>

definition GetCacheTTL :: "string \<Rightarrow> duration" where
  "GetCacheTTL ttlStr =
     (if ttlStr \<noteq> []
      then (case Atoi ttlStr of
              Some days \<Rightarrow> if days > 0 then wrap64 (wrap64 (days * 24) * Hour) else 30 * 24 * Hour
            | None \<Rightarrow> 30 * 24 * Hour)
      else 30 * 24 * Hour)"

subsection \<open>The \<open>cache_metadata\<close> table\<close>

text \<open>
  The \<open>*sql.DB\<close> of the cache manager: the rows of table \<open>cache_metadata\<close>, at most one per
  (\<open>entity_type\<close>, \<open>entity_key\<close>) by its \<open>UNIQUE\<close> constraint, the last value drawn from the
  sequence of its \<open>SERIAL\<close> column, and \<open>db_fault\<close>: the error, if any, with which the server
  or the driver fails a statement issued at an instant (a lost connection, a cancelled
  context, a violated column constraint).
\<close>

record metadata_row =
  row_id :: int
  row_entity_type :: string
  row_entity_key :: string
  row_cached_at :: time
  row_expires_at :: time
  row_data_hash :: "string option"

datatype db_stmt =
    SelectMetadata string string
  | UpsertMetadata string string time time string
  | DeleteMetadata string string

record DB =
  db_fault :: "time \<Rightarrow> db_stmt \<Rightarrow> error option"
  cache_metadata :: "string \<times> string \<rightharpoonup> metadata_row"
  id_seq :: int

record CacheMetadata =
  ID :: int
  EntityType :: string
  EntityKey :: string
  CachedAt :: time
  ExpiresAt :: time
  DataHash :: string

record CacheManager =
  redis :: "Cache option"
  db :: DB

definition NewCacheManager :: "Cache option \<Rightarrow> DB \<Rightarrow> CacheManager" where
  "NewCacheManager redisCache d = \<lparr>redis = redisCache, db = d\<rparr>"

text \<open>\<open>QueryRowContext(...).Scan(...)\<close>: a \<open>NULL\<close> \<open>data_hash\<close> does not scan into a string.\<close>

definition QueryRow_Scan :: "time \<Rightarrow> DB \<Rightarrow> string \<Rightarrow> string \<Rightarrow> error + CacheMetadata" where
  "QueryRow_Scan now d entityType entityKey =
     (case db_fault d now (SelectMetadata entityType entityKey) of
        Some e \<Rightarrow> Inl e
      | None \<Rightarrow>
          (case cache_metadata d (entityType, entityKey) of
             None \<Rightarrow> Inl ErrNoRows
           | Some row \<Rightarrow>
               (case row_data_hash row of
                  None \<Rightarrow> Inl (Error ''sql: Scan error on column index 5: converting NULL to string is unsupported'')
                | Some h \<Rightarrow>
                    Inr \<lparr>ID = row_id row, EntityType = row_entity_type row,
                         EntityKey = row_entity_key row, CachedAt = row_cached_at row,
                         ExpiresAt = row_expires_at row, DataHash = h\<rparr>)))"

definition GetMetadata ::
  "time \<Rightarrow> CacheManager \<Rightarrow> string \<Rightarrow> string \<Rightarrow> error + CacheMetadata option" where
  "GetMetadata now cm entityType entityKey =
     (case QueryRow_Scan now (db cm) entityType entityKey of
        Inl err \<Rightarrow>
          if err = ErrNoRows then Inr None
          else Inl (wrapf ''failed to get cache metadata'' err)
      | Inr metadata \<Rightarrow> Inr (Some metadata))"

text \<open>
  \<open>INSERT ... ON CONFLICT (entity_type, entity_key) DO UPDATE\<close>: one statement that
  inserts a row with a fresh \<open>id\<close>, or overwrites the three columns of the row that is
  there. Either way a value is drawn from the sequence.
\<close>

definition Exec_upsert ::
  "time \<Rightarrow> DB \<Rightarrow> string \<Rightarrow> string \<Rightarrow> time \<Rightarrow> time \<Rightarrow> string \<Rightarrow> error + DB" where
  "Exec_upsert now d entityType entityKey cachedAt expiresAt dataHash =
     (case db_fault d now (UpsertMetadata entityType entityKey cachedAt expiresAt dataHash) of
        Some e \<Rightarrow> Inl e
      | None \<Rightarrow>
          (let row =
                 (case cache_metadata d (entityType, entityKey) of
                    None \<Rightarrow>
                      \<lparr>row_id = id_seq d + 1, row_entity_type = entityType,
                       row_entity_key = entityKey, row_cached_at = cachedAt,
                       row_expires_at = expiresAt, row_data_hash = Some dataHash\<rparr>
                  | Some old \<Rightarrow>
                      old\<lparr>row_cached_at := cachedAt, row_expires_at := expiresAt,
                          row_data_hash := Some dataHash\<rparr>)
           in Inr (d\<lparr>cache_metadata := (cache_metadata d)((entityType, entityKey) \<mapsto> row),
                     id_seq := id_seq d + 1\<rparr>)))"

definition Exec_delete :: "time \<Rightarrow> DB \<Rightarrow> string \<Rightarrow> string \<Rightarrow> error + DB" where
  "Exec_delete now d entityType entityKey =
     (case db_fault d now (DeleteMetadata entityType entityKey) of
        Some e \<Rightarrow> Inl e
      | None \<Rightarrow> Inr (d\<lparr>cache_metadata := (cache_metadata d)((entityType, entityKey) := None)\<rparr>))"

subsection \<open>The methods of \<open>CacheManager\<close>\<close>

text \<open>The first argument of \<open>SetMetadata\<close> is the value of the package variable \<open>CacheTTL\<close>.\<close>

definition SetMetadata ::
  "duration \<Rightarrow> time \<Rightarrow> CacheManager \<Rightarrow> string \<Rightarrow> string \<Rightarrow> string \<Rightarrow> error option \<times> CacheManager" where
  "SetMetadata CacheTTL now cm entityType entityKey dataHash =
     (let expiresAt = now + CacheTTL
      in case Exec_upsert now (db cm) entityType entityKey now expiresAt dataHash of
           Inl err \<Rightarrow> (Some (wrapf ''failed to set cache metadata'' err), cm)
         | Inr d \<Rightarrow> (None, cm\<lparr>db := d\<rparr>))"

definition NeedsRefresh :: "time \<Rightarrow> CacheManager \<Rightarrow> string \<Rightarrow> string \<Rightarrow> bool" where
  "NeedsRefresh now cm entityType entityKey =
     (case GetMetadata now cm entityType entityKey of
        Inl err \<Rightarrow> True
      | Inr None \<Rightarrow> True
      | Inr (Some metadata) \<Rightarrow> now > ExpiresAt metadata)"

text \<open>The methods that log return the records they emit, in order.\<close>

definition CacheManager_Get ::
  "time \<Rightarrow> CacheManager \<Rightarrow> string \<Rightarrow> (bytes \<times> error option) \<times> log_entry list \<times> CacheManager" where
  "CacheManager_Get now cm k =
     (case redis cm of
        None \<Rightarrow> ((None, None), [(LevelDebug, ''Cache miss'', [(''key'', k)])], cm)
      | Some c \<Rightarrow>
          (let res = fst (Cache_Get now k c); cm' = cm\<lparr>redis := Some (snd (Cache_Get now k c))\<rparr>
           in if snd res = None \<and> fst res \<noteq> None
              then ((fst res, None), [(LevelDebug, ''Redis cache hit'', [(''key'', k)])], cm')
              else ((None, None), [(LevelDebug, ''Cache miss'', [(''key'', k)])], cm')))"

definition CacheManager_Set ::
  "time \<Rightarrow> CacheManager \<Rightarrow> string \<Rightarrow> bytes \<Rightarrow> duration \<Rightarrow> error option \<times> log_entry list \<times> CacheManager" where
  "CacheManager_Set now cm k data ttl =
     (case redis cm of
        None \<Rightarrow> (None, [], cm)
      | Some c \<Rightarrow>
          (let cm' = cm\<lparr>redis := Some (snd (Cache_Set now k data ttl c))\<rparr>
           in case fst (Cache_Set now k data ttl c) of
                Some err \<Rightarrow>
                  (None, [(LevelWarn, ''Failed to set Redis cache'', [(''key'', k), (''error'', message err)])], cm')
              | None \<Rightarrow> (None, [], cm')))"

definition CacheManager_Delete ::
  "time \<Rightarrow> CacheManager \<Rightarrow> string \<Rightarrow> error option \<times> CacheManager" where
  "CacheManager_Delete now cm k =
     (case redis cm of
        None \<Rightarrow> (None, cm)
      | Some c \<Rightarrow> (fst (Cache_Delete now k c), cm\<lparr>redis := Some (snd (Cache_Delete now k c))\<rparr>))"

definition InvalidateEntity ::
  "time \<Rightarrow> CacheManager \<Rightarrow> string \<Rightarrow> string \<Rightarrow> error option \<times> CacheManager" where
  "InvalidateEntity now cm entityType entityKey =
     (case Exec_delete now (db cm) entityType entityKey of
        Inl err \<Rightarrow> (Some (wrapf ''failed to invalidate entity'' err), cm)
      | Inr d \<Rightarrow>
          (let redisKey = ''football:'' @ entityType @ '':'' @ entityKey
           in (None, cm\<lparr>db := d,
                        redis := (case redis cm of
                                    None \<Rightarrow> None
                                  | Some c \<Rightarrow> Some (snd (Cache_Delete now redisKey c)))\<rparr>)))"

section \<open>footballdata/client.go: the rate-limited client\<close>

definition baseURL :: string where "baseURL = ''https://api.football-data.org/v4''"
definition requestsPerMinute :: int where "requestsPerMinute = 10"
definition rateLimitDuration :: duration where "rateLimitDuration = Minute"

text \<open>The entities of the API, with the fields this development reads.\<close>

record Team =
  team_ID :: int
  team_Name :: string

record Competition =
  comp_ID :: int
  comp_Name :: string
  comp_Code :: string
  comp_Type :: string
  comp_Emblem :: string

record Match =
  match_ID :: int
  match_Status :: string
  match_HomeTeam :: Team
  match_AwayTeam :: Team

record Standing =
  standing_Competition :: Competition
  standing_Table :: "(int \<times> Team \<times> int) list"

record http_response =
  StatusCode :: int
  Body :: "error + string"

text \<open>
  What the program does not decide, each as a function of the instant at which it is
  asked: how much longer than requested a \<open>time.Sleep\<close> lasts, whether a request can be
  built for a URL, what the HTTP round trip to the upstream API returns and how long it
  takes, and what the JSON decoder and the SHA-256 fingerprint of the JSON encoding make
  of a payload. \<open>getenv_CACHE_TTL_DAYS\<close> is the environment variable read at start.
\<close>

record Env =
  oversleep :: "time \<Rightarrow> nat"
  new_request :: "string \<Rightarrow> error option"
  http_do :: "time \<Rightarrow> string \<Rightarrow> string \<Rightarrow> error + http_response"
  http_time :: "time \<Rightarrow> nat"
  unmarshal_competition :: "string \<Rightarrow> error + Competition"
  unmarshal_competitions :: "string \<Rightarrow> error + Competition list"
  unmarshal_matches :: "string \<Rightarrow> error + Match list"
  unmarshal_standing :: "string \<Rightarrow> error + Standing"
  hash_competition :: "Competition \<Rightarrow> string"
  hash_standing :: "Standing \<Rightarrow> string"
  getenv_CACHE_TTL_DAYS :: string

definition CacheTTL :: "Env \<Rightarrow> duration" where
  "CacheTTL env = GetCacheTTL (getenv_CACHE_TTL_DAYS env)"

text \<open>\<open>lastRequest\<close> is \<open>None\<close> while it is the zero \<open>time.Time\<close>.\<close>

record Client =
  apiKey :: string
  lastRequest :: "time option"

definition NewClient :: "string \<Rightarrow> Client" where
  "NewClient k = \<lparr>apiKey = k, lastRequest = None\<rparr>"

text \<open>Decimal digits of a number, for \<open>%d\<close>.\<close>

fun show_nat :: "nat \<Rightarrow> string" where
  "show_nat n =
     (if n < 10 then [char_of (48 + n)]
      else show_nat (n div 10) @ [char_of (48 + n mod 10)])"

definition show_int :: "int \<Rightarrow> string" where
  "show_int i = (if i < 0 then CHR ''-'' # show_nat (nat (- i)) else show_nat (nat i))"

text \<open>
  The rate limiting at the head of \<open>doRequest\<close>, entered at instant \<open>t\<close>: the instant at
  which the call is let through, which becomes \<open>lastRequest\<close>. The sleep lasts what was
  asked and \<open>oversleep\<close> more.
\<close>

definition rateLimit :: "Env \<Rightarrow> time \<Rightarrow> Client \<Rightarrow> time" where
  "rateLimit env t c =
     (case lastRequest c of
        None \<Rightarrow> t
      | Some l \<Rightarrow>
          (let elapsed = t - l
           in if elapsed < rateLimitDuration div requestsPerMinute
              then (let sleepDuration = (rateLimitDuration div requestsPerMinute) - elapsed
                    in t + sleepDuration + int (oversleep env t))
              else t))"

definition doRequest ::
  "Env \<Rightarrow> string \<Rightarrow> time \<times> Client \<Rightarrow> (error + string) \<times> time \<times> Client" where
  "doRequest env endpoint tc =
     (let t1 = rateLimit env (fst tc) (snd tc);
          c = (snd tc)\<lparr>lastRequest := Some t1\<rparr>;
          url = baseURL @ endpoint
      in case new_request env url of
           Some err \<Rightarrow> (Inl (wrapf ''failed to create request'' err), t1, c)
         | None \<Rightarrow>
             (let t2 = t1 + int (http_time env t1)
              in case http_do env t1 url (apiKey c) of
                   Inl err \<Rightarrow> (Inl (wrapf ''failed to perform request'' err), t2, c)
                 | Inr resp \<Rightarrow>
                     (case Body resp of
                        Inl err \<Rightarrow> (Inl (wrapf ''failed to read response body'' err), t2, c)
                      | Inr body \<Rightarrow>
                          if StatusCode resp \<noteq> 200
                          then (Inl (Error (''API returned status '' @ show_int (StatusCode resp)
                                            @ '': '' @ body)), t2, c)
                          else (Inr body, t2, c))))"

definition decode ::
  "(string \<Rightarrow> error + 'a) \<Rightarrow> (error + string) \<times> time \<times> Client \<Rightarrow> (error + 'a) \<times> time \<times> Client" where
  "decode unmarshal r =
     (case fst r of
        Inl err \<Rightarrow> (Inl err, snd r)
      | Inr body \<Rightarrow>
          (case unmarshal body of
             Inl err \<Rightarrow> (Inl (wrapf ''failed to unmarshal response'' err), snd r)
           | Inr v \<Rightarrow> (Inr v, snd r)))"

definition GetCompetitions ::
  "Env \<Rightarrow> time \<times> Client \<Rightarrow> (error + Competition list) \<times> time \<times> Client" where
  "GetCompetitions env tc = decode (unmarshal_competitions env) (doRequest env ''/competitions'' tc)"

definition GetCompetition ::
  "Env \<Rightarrow> string \<Rightarrow> time \<times> Client \<Rightarrow> (error + Competition) \<times> time \<times> Client" where
  "GetCompetition env code tc =
     decode (unmarshal_competition env) (doRequest env (''/competitions/'' @ code) tc)"

definition GetMatches ::
  "Env \<Rightarrow> string \<Rightarrow> time \<times> Client \<Rightarrow> (error + Match list) \<times> time \<times> Client" where
  "GetMatches env competitionCode tc =
     decode (unmarshal_matches env)
       (doRequest env (''/competitions/'' @ competitionCode @ ''/matches'') tc)"

definition GetStandings ::
  "Env \<Rightarrow> string \<Rightarrow> time \<times> Client \<Rightarrow> (error + Standing) \<times> time \<times> Client" where
  "GetStandings env competitionCode tc =
     decode (unmarshal_standing env)
       (doRequest env (''/competitions/'' @ competitionCode @ ''/standings'') tc)"

text \<open>
  Sequential calls through one client: before each call some time passes (\<open>idle\<close>), then
  \<open>doRequest\<close> runs to its end. \<open>permits\<close> lists the instants at which the calls were let
  through the rate limiting, that is the successive values of \<open>lastRequest\<close>.
\<close>

fun permits :: "Env \<Rightarrow> (nat \<times> string) list \<Rightarrow> time \<times> Client \<Rightarrow> time list" where
  "permits env [] tc = []"
| "permits env ((idle, endpoint) # calls) tc =
     (let r = doRequest env endpoint (fst tc + int idle, snd tc)
      in (case lastRequest (snd (snd r)) of None \<Rightarrow> [] | Some p \<Rightarrow> [p]) @ permits env calls (snd r))"

section \<open>footballdata/repository.go: the durable store\<close>

text \<open>
  The tables the scheduler writes, keyed by \<open>id\<close>, each row with the instant of its last
  write (\<open>updated_at\<close>, \<open>cached_at\<close>), and \<open>repo_fault\<close>: the error, if any, with which the
  database fails a statement issued at an instant. Encoding the columns as JSON does
  not fail on these entities.
\<close>

datatype repo_stmt =
    InsertCompetition Competition
  | InsertTeam Team
  | InsertMatch Match

record Repository =
  repo_fault :: "time \<Rightarrow> repo_stmt \<Rightarrow> error option"
  competitions :: "int \<rightharpoonup> Competition \<times> time"
  teams :: "int \<rightharpoonup> Team \<times> time"
  matches :: "int \<rightharpoonup> Match \<times> time"

definition SaveCompetition ::
  "time \<Rightarrow> Repository \<Rightarrow> Competition \<Rightarrow> error option \<times> Repository" where
  "SaveCompetition now r competition =
     (case repo_fault r now (InsertCompetition competition) of
        Some err \<Rightarrow> (Some (wrapf ''failed to save competition'' err), r)
      | None \<Rightarrow>
          (None, r\<lparr>competitions := (competitions r)(comp_ID competition \<mapsto> (competition, now))\<rparr>))"

definition SaveTeam :: "time \<Rightarrow> Repository \<Rightarrow> Team \<Rightarrow> error option \<times> Repository" where
  "SaveTeam now r team =
     (case repo_fault r now (InsertTeam team) of
        Some err \<Rightarrow> (Some (wrapf ''failed to save team'' err), r)
      | None \<Rightarrow> (None, r\<lparr>teams := (teams r)(team_ID team \<mapsto> (team, now))\<rparr>))"

definition SaveMatch :: "time \<Rightarrow> Repository \<Rightarrow> Match \<Rightarrow> error option \<times> Repository" where
  "SaveMatch now r match =
     (case repo_fault r now (InsertMatch match) of
        Some err \<Rightarrow> (Some (wrapf ''failed to save match'' err), r)
      | None \<Rightarrow> (None, r\<lparr>matches := (matches r)(match_ID match \<mapsto> (match, now))\<rparr>))"

section \<open>The scheduler and what it reaches\<close>

text \<open>
  The state a sync tick works on: the wall clock, the log, and the scheduler with the
  objects it points to, namely the client and the repository of its service, its cache
  manager (\<open>None\<close> when \<open>nil\<close>) and its configured competition codes. Time passes in
  \<open>time.Sleep\<close> and in the HTTP round trip only.
\<close>

record World =
  clock :: time
  logs :: "log_entry list"
  client :: Client
  repo :: Repository
  cacheManager :: "CacheManager option"
  competitionCodes :: "string list"

definition slog :: "level \<Rightarrow> string \<Rightarrow> (string \<times> string) list \<Rightarrow> World \<Rightarrow> World" where
  "slog lvl msg attrs w = w\<lparr>logs := logs w @ [(lvl, msg, attrs)]\<rparr>"

definition Sleep :: "Env \<Rightarrow> duration \<Rightarrow> World \<Rightarrow> World" where
  "Sleep env d w = w\<lparr>clock := clock w + d + int (oversleep env (clock w))\<rparr>"

text \<open>A method of the client, run at the current instant on the scheduler's client.\<close>

definition via_client ::
  "(time \<times> Client \<Rightarrow> 'a \<times> time \<times> Client) \<Rightarrow> World \<Rightarrow> 'a \<times> World" where
  "via_client f w =
     (let r = f (clock w, client w)
      in (fst r, w\<lparr>clock := fst (snd r), client := snd (snd r)\<rparr>))"

subsection \<open>footballdata/service.go\<close>

text \<open>The body of the loop over the fetched matches in \<open>SyncCompetitionMatches\<close>.\<close>

definition saveMatchStep :: "World \<Rightarrow> Match \<Rightarrow> World" where
  "saveMatchStep w match =
     (let home = SaveTeam (clock w) (repo w) (match_HomeTeam match);
          w1 = (case fst home of
                  Some err \<Rightarrow>
                    slog LevelError ''Failed to save home team''
                      [(''id'', show_int (team_ID (match_HomeTeam match))), (''error'', message err)]
                      (w\<lparr>repo := snd home\<rparr>)
                | None \<Rightarrow> w\<lparr>repo := snd home\<rparr>);
          away = SaveTeam (clock w1) (repo w1) (match_AwayTeam match);
          w2 = (case fst away of
                  Some err \<Rightarrow>
                    slog LevelError ''Failed to save away team''
                      [(''id'', show_int (team_ID (match_AwayTeam match))), (''error'', message err)]
                      (w1\<lparr>repo := snd away\<rparr>)
                | None \<Rightarrow> w1\<lparr>repo := snd away\<rparr>);
          saved = SaveMatch (clock w2) (repo w2) match
      in case fst saved of
           Some err \<Rightarrow>
             slog LevelError ''Failed to save match''
               [(''id'', show_int (match_ID match)), (''error'', message err)]
               (w2\<lparr>repo := snd saved\<rparr>)
         | None \<Rightarrow>
             slog LevelDebug ''Saved match'' [(''id'', show_int (match_ID match))]
               (w2\<lparr>repo := snd saved\<rparr>))"

definition SyncCompetitionMatches :: "Env \<Rightarrow> string \<Rightarrow> World \<Rightarrow> error option \<times> World" where
  "SyncCompetitionMatches env competitionCode w =
     (let w1 = slog LevelInfo ''Starting matches sync'' [(''competition'', competitionCode)] w;
          fetched = via_client (GetMatches env competitionCode) w1
      in case fst fetched of
           Inl err \<Rightarrow> (Some (wrapf ''failed to fetch matches'' err), snd fetched)
         | Inr ms \<Rightarrow>
             (None,
              slog LevelInfo ''Completed matches sync''
                [(''competition'', competitionCode), (''count'', show_nat (length ms))]
                (foldl saveMatchStep (snd fetched) ms)))"

definition Service_GetAllCompetitions :: "Env \<Rightarrow> World \<Rightarrow> (error + Competition list) \<times> World" where
  "Service_GetAllCompetitions env w =
     via_client (GetCompetitions env) (slog LevelInfo ''Fetching all competitions from API'' [] w)"

subsection \<open>footballdata/scheduler.go\<close>

definition getAllCompetitions :: "Env \<Rightarrow> World \<Rightarrow> (error + Competition list) \<times> World" where
  "getAllCompetitions env w =
     (if length (competitionCodes w) > 0
      then (Inr (map (\<lambda>code. \<lparr>comp_ID = 0, comp_Name = [], comp_Code = code,
                               comp_Type = [], comp_Emblem = []\<rparr>)
                  (competitionCodes w)), w)
      else Service_GetAllCompetitions env w)"

definition needsRefresh :: "World \<Rightarrow> string \<Rightarrow> string \<Rightarrow> bool" where
  "needsRefresh w entityType entityKey =
     (case cacheManager w of
        None \<Rightarrow> True
      | Some cm \<Rightarrow> NeedsRefresh (clock w) cm entityType entityKey)"

definition syncCompetition :: "Env \<Rightarrow> string \<Rightarrow> World \<Rightarrow> error option \<times> World" where
  "syncCompetition env code w =
     (let fetched = via_client (GetCompetition env code) w
      in case fst fetched of
           Inl err \<Rightarrow> (Some (wrapf ''failed to fetch competition'' err), snd fetched)
         | Inr competition \<Rightarrow>
             (let w1 = snd fetched;
                  saved = SaveCompetition (clock w1) (repo w1) competition
              in case fst saved of
                   Some err \<Rightarrow>
                     (Some (wrapf ''failed to save competition'' err), w1\<lparr>repo := snd saved\<rparr>)
                 | None \<Rightarrow>
                     (let w2 = w1\<lparr>repo := snd saved\<rparr>
                      in case cacheManager w2 of
                           Some cm \<Rightarrow>
                             (let dataHash = hash_competition env competition;
                                  r = SetMetadata (CacheTTL env) (clock w2) cm
                                        ''competition'' code dataHash
                              in (fst r, w2\<lparr>cacheManager := Some (snd r)\<rparr>))
                         | None \<Rightarrow> (None, w2))))"

definition syncStandings :: "Env \<Rightarrow> string \<Rightarrow> World \<Rightarrow> error option \<times> World" where
  "syncStandings env code w =
     (let fetched = via_client (GetStandings env code) w
      in case fst fetched of
           Inl err \<Rightarrow> (Some (wrapf ''failed to fetch standings'' err), snd fetched)
         | Inr standings \<Rightarrow>
             (let w1 = snd fetched
              in case cacheManager w1 of
                   Some cm \<Rightarrow>
                     (let dataHash = hash_standing env standings;
                          r = SetMetadata (CacheTTL env) (clock w1) cm ''standings'' code dataHash
                      in (fst r, w1\<lparr>cacheManager := Some (snd r)\<rparr>))
                 | None \<Rightarrow> (None, w1)))"

text \<open>
  \<open>s.cacheManager.SetMetadata(ctx, entityType, code, "")\<close> with its result dropped, under
  \<open>if s.cacheManager != nil\<close>, as \<open>runSync\<close> does after syncing matches and standings.
\<close>

definition markSynced :: "Env \<Rightarrow> string \<Rightarrow> string \<Rightarrow> World \<Rightarrow> World" where
  "markSynced env entityType code w =
     (case cacheManager w of
        Some cm \<Rightarrow>
          w\<lparr>cacheManager := Some (snd (SetMetadata (CacheTTL env) (clock w) cm entityType code []))\<rparr>
      | None \<Rightarrow> w)"

definition logFailure :: "string \<Rightarrow> string \<Rightarrow> error option \<times> World \<Rightarrow> World" where
  "logFailure msg code r =
     (case fst r of
        Some err \<Rightarrow> slog LevelError msg [(''code'', code), (''error'', message err)] (snd r)
      | None \<Rightarrow> snd r)"

text \<open>The three steps of the body of the loop of \<open>runSync\<close>, for one competition.\<close>

definition stepCompetition :: "Env \<Rightarrow> Competition \<Rightarrow> World \<Rightarrow> World" where
  "stepCompetition env competition w =
     (if needsRefresh w ''competition'' (comp_Code competition)
      then Sleep env (2 * Second)
             (logFailure ''Failed to sync competition'' (comp_Code competition)
               (syncCompetition env (comp_Code competition)
                 (slog LevelInfo ''Syncing competition''
                    [(''code'', comp_Code competition), (''name'', comp_Name competition)] w)))
      else w)"

definition stepMatches :: "Env \<Rightarrow> Competition \<Rightarrow> World \<Rightarrow> World" where
  "stepMatches env competition w =
     (if needsRefresh w ''matches'' (comp_Code competition)
      then Sleep env (2 * Second)
             (markSynced env ''matches'' (comp_Code competition)
               (logFailure ''Failed to sync matches'' (comp_Code competition)
                 (SyncCompetitionMatches env (comp_Code competition)
                   (slog LevelInfo ''Syncing matches'' [(''code'', comp_Code competition)] w))))
      else w)"

definition stepStandings :: "Env \<Rightarrow> Competition \<Rightarrow> World \<Rightarrow> World" where
  "stepStandings env competition w =
     (if needsRefresh w ''standings'' (comp_Code competition)
      then Sleep env (2 * Second)
             (markSynced env ''standings'' (comp_Code competition)
               (logFailure ''Failed to sync standings'' (comp_Code competition)
                 (syncStandings env (comp_Code competition)
                   (slog LevelInfo ''Syncing standings'' [(''code'', comp_Code competition)] w))))
      else w)"

definition processCompetition :: "Env \<Rightarrow> World \<Rightarrow> Competition \<Rightarrow> World" where
  "processCompetition env w competition =
     stepStandings env competition (stepMatches env competition (stepCompetition env competition w))"

definition runSync :: "Env \<Rightarrow> World \<Rightarrow> World" where
  "runSync env w =
     (let r = getAllCompetitions env (slog LevelInfo ''Running scheduled sync'' [] w)
      in case fst r of
           Inl err \<Rightarrow> slog LevelError ''Failed to get competitions'' [(''error'', message err)] (snd r)
         | Inr cs \<Rightarrow>
             slog LevelInfo ''Completed scheduled sync'' []
               (foldl (processCompetition env)
                  (slog LevelInfo ''Processing competitions'' [(''count'', show_nat (length cs))] (snd r))
                  cs))"

section \<open>Notions used to state the properties\<close>

text \<open>
  The representation invariant of the LRU cache: the recency list holds each present
  key once, the capacity is positive and respected, and an item is filed under its key.
\<close>

definition lru_inv :: "MemoryCache \<Rightarrow> bool" where
  "lru_inv c \<longleftrightarrow>
     distinct (lru c) \<and> set (lru c) = dom (items c) \<and>
     1 \<le> maxSize c \<and> int (length (lru c)) \<le> maxSize c \<and>
     (\<forall>k item. items c k = Some item \<longrightarrow> item_key item = k)"

text \<open>
  \<open>older m a b\<close>: by the record \<open>m\<close> of last touches, key \<open>a\<close> was last touched before key
  \<open>b\<close> was. The least recently touched key of a list is older than every other one.
\<close>

definition older :: "(string \<rightharpoonup> nat) \<Rightarrow> string \<Rightarrow> string \<Rightarrow> bool" where
  "older m a b =
     (case m a of None \<Rightarrow> False
      | Some i \<Rightarrow> (case m b of None \<Rightarrow> False | Some j \<Rightarrow> i < j))"

definition least_recently_touched :: "(string \<rightharpoonup> nat) \<Rightarrow> string list \<Rightarrow> string \<Rightarrow> bool" where
  "least_recently_touched m l e \<longleftrightarrow> e \<in> set l \<and> (\<forall>k \<in> set l. k \<noteq> e \<longrightarrow> older m e k)"

definition stamp_inv :: "string list \<Rightarrow> nat \<Rightarrow> (string \<rightharpoonup> nat) \<Rightarrow> bool" where
  "stamp_inv l n m \<longleftrightarrow>
     (\<forall>k \<in> set l. \<exists>i<n. m k = Some i) \<and> sorted_wrt (\<lambda>a b. older m b a) l"

definition touch_upd ::
  "time \<times> cache_op \<Rightarrow> MemoryCache \<Rightarrow> nat \<Rightarrow> (string \<rightharpoonup> nat) \<Rightarrow> (string \<rightharpoonup> nat)" where
  "touch_upd x c n m = (case touched x c of Some k \<Rightarrow> m(k \<mapsto> n) | None \<Rightarrow> m)"

text \<open>A \<open>Set\<close> given as instant, key, value and TTL.\<close>

fun set_op :: "time \<times> string \<times> bytes \<times> duration \<Rightarrow> time \<times> cache_op" where
  "set_op (now, k, v, ttl) = (now, OpSet k v ttl)"

fun set_key :: "time \<times> string \<times> bytes \<times> duration \<Rightarrow> string" where
  "set_key (now, k, v, ttl) = k"

text \<open>A backend holds a key when its store has an entry filed under it.\<close>

definition Cache_holds :: "Cache \<Rightarrow> string \<Rightarrow> bool" where
  "Cache_holds c k = (case c of Memory m \<Rightarrow> items m k \<noteq> None | Redis r \<Rightarrow> keyspace r k \<noteq> None)"


text \<open>A connection that fails no statement, and one that fails every statement.\<close>

definition no_fault :: "time \<Rightarrow> 'q \<Rightarrow> error option" where
  "no_fault t q = None"

definition failing :: "error \<Rightarrow> time \<Rightarrow> 'q \<Rightarrow> error option" where
  "failing e t q = Some e"

text \<open>
  A backend is well formed when, if it is the in-memory cache, it satisfies the
  invariant of that cache, as every cache obtained from \<open>NewMemoryCache\<close> does.
\<close>

definition Cache_wf :: "Cache \<Rightarrow> bool" where
  "Cache_wf c = (case c of Memory m \<Rightarrow> lru_inv m | Redis r \<Rightarrow> True)"

text \<open>
  \<open>spaced g ps\<close>: each instant of \<open>ps\<close> is at least \<open>g\<close> after the one before it.
  \<open>in_window t w ps\<close> counts the instants of \<open>ps\<close> in the window of duration \<open>w\<close> that
  starts at \<open>t\<close> (\<open>t\<close> included, \<open>t + w\<close> excluded).
\<close>

definition spaced :: "duration \<Rightarrow> time list \<Rightarrow> bool" where
  "spaced g ps = successively (\<lambda>a b. a + g \<le> b) ps"

definition in_window :: "time \<Rightarrow> duration \<Rightarrow> time list \<Rightarrow> nat" where
  "in_window t w ps = length (filter (\<lambda>p. t \<le> p \<and> p < t + w) ps)"

text \<open>
  An environment for examples: sleeps and round trips take exactly their nominal time
  (the round trip none), every request is answered with status 200 and the body \<open>{}\<close>,
  which decodes to empty entities, and \<open>CACHE_TTL_DAYS\<close> is unset.
\<close>

definition zero_lag :: "time \<Rightarrow> nat" where
  "zero_lag t = 0"

definition request_ok :: "string \<Rightarrow> error option" where
  "request_ok url = None"

definition answer_ok :: "time \<Rightarrow> string \<Rightarrow> string \<Rightarrow> error + http_response" where
  "answer_ok t url token = Inr \<lparr>StatusCode = 200, Body = Inr ''{}''\<rparr>"

definition decode_competition :: "string \<Rightarrow> error + Competition" where
  "decode_competition body =
     Inr \<lparr>comp_ID = 0, comp_Name = [], comp_Code = [], comp_Type = [], comp_Emblem = []\<rparr>"

definition decode_competitions :: "string \<Rightarrow> error + Competition list" where
  "decode_competitions body = Inr []"

definition decode_matches :: "string \<Rightarrow> error + Match list" where
  "decode_matches body = Inr []"

definition decode_standing :: "string \<Rightarrow> error + Standing" where
  "decode_standing body =
     Inr \<lparr>standing_Competition =
            \<lparr>comp_ID = 0, comp_Name = [], comp_Code = [], comp_Type = [], comp_Emblem = []\<rparr>,
          standing_Table = []\<rparr>"

definition fingerprint_competition :: "Competition \<Rightarrow> string" where
  "fingerprint_competition competition = ''c0'' @ comp_Code competition"

definition fingerprint_standing :: "Standing \<Rightarrow> string" where
  "fingerprint_standing st = ''50'' @ comp_Code (standing_Competition st)"

definition calm :: Env where
  "calm =
     \<lparr>oversleep = zero_lag, new_request = request_ok, http_do = answer_ok, http_time = zero_lag,
      unmarshal_competition = decode_competition, unmarshal_competitions = decode_competitions,
      unmarshal_matches = decode_matches, unmarshal_standing = decode_standing,
      hash_competition = fingerprint_competition, hash_standing = fingerprint_standing,
      getenv_CACHE_TTL_DAYS = []\<rparr>"

text \<open>
  An upstream that cannot be reached: every round trip ends in a transport error.
  \<open>fresh_world codes\<close> is a scheduler configured with \<open>codes\<close> at instant 0, with empty
  tables, a database that fails no statement, and a cache manager without a volatile
  backend.
\<close>

definition refuse :: "time \<Rightarrow> string \<Rightarrow> string \<Rightarrow> error + http_response" where
  "refuse t url token = Inl (Error ''connection refused'')"

definition offline :: Env where
  "offline = calm\<lparr>http_do := refuse\<rparr>"

definition fresh_world :: "string list \<Rightarrow> World" where
  "fresh_world codes =
     \<lparr>clock = 0, logs = [], client = NewClient ''token'',
      repo = \<lparr>repo_fault = no_fault, competitions = Map.empty, teams = Map.empty,
               matches = Map.empty\<rparr>,
      cacheManager =
        Some (NewCacheManager None \<lparr>db_fault = no_fault, cache_metadata = Map.empty, id_seq = 0\<rparr>),
      competitionCodes = codes\<rparr>"

text \<open>The rows of \<open>cache_metadata\<close> a scheduler reaches through its cache manager.\<close>

definition rows_of :: "World \<Rightarrow> string \<times> string \<rightharpoonup> metadata_row" where
  "rows_of w = (case cacheManager w of None \<Rightarrow> Map.empty | Some cm \<Rightarrow> cache_metadata (db cm))"

text \<open>
  \<open>frame K w w'\<close>: what every part of a tick guarantees between the state \<open>w\<close> it starts
  from and the state \<open>w'\<close> it leaves: time does not go back, the log only grows, the
  stored competitions only grow, the databases behave as before, a cache manager stays
  or stays absent, and the freshness rows outside \<open>K\<close> are untouched.
\<close>

definition db_faults :: "World \<Rightarrow> (time \<Rightarrow> db_stmt \<Rightarrow> error option) option" where
  "db_faults w = (case cacheManager w of None \<Rightarrow> None | Some cm \<Rightarrow> Some (db_fault (db cm)))"

definition frame :: "(string \<times> string) set \<Rightarrow> World \<Rightarrow> World \<Rightarrow> bool" where
  "frame K w w' \<longleftrightarrow>
     clock w \<le> clock w' \<and>
     repo_fault (repo w') = repo_fault (repo w) \<and>
     db_faults w' = db_faults w \<and>
     (\<forall>key. key \<notin> K \<longrightarrow> rows_of w' key = rows_of w key) \<and>
     (\<exists>more. logs w' = logs w @ more) \<and>
     dom (competitions (repo w)) \<subseteq> dom (competitions (repo w'))"

definition keys_of :: "string \<Rightarrow> (string \<times> string) set" where
  "keys_of code = {(''competition'', code), (''matches'', code), (''standings'', code)}"

text \<open>
  \<open>stale w entityType code\<close>: the freshness row of the entity is missing or its
  \<open>expires_at\<close> is before the current instant.
\<close>

definition stale :: "World \<Rightarrow> string \<Rightarrow> string \<Rightarrow> bool" where
  "stale w entityType code =
     (case rows_of w (entityType, code) of
        None \<Rightarrow> True
      | Some row \<Rightarrow> row_expires_at row < clock w)"

text \<open>
  An upstream that answers every request except those for competition \<open>XX\<close>, whose round
  trips end in a transport error.
\<close>

definition refuse_XX :: "time \<Rightarrow> string \<Rightarrow> string \<Rightarrow> error + http_response" where
  "refuse_XX t url token =
     (if url = baseURL @ ''/competitions/XX'' then Inl (Error ''connection refused'')
      else answer_ok t url token)"

definition flaky :: Env where
  "flaky = calm\<lparr>http_do := refuse_XX\<rparr>"

section \<open>The LRU cache: invariant, bound and eviction order\<close>

lemma lru_inv_New: "lru_inv (NewMemoryCache m)"
  by (simp add: lru_inv_def NewMemoryCache_def)

lemma lru_inv_removeItem: "lru_inv c \<Longrightarrow> lru_inv (removeItem k c)"
  by (auto simp: lru_inv_def removeItem_def dom_def length_remove1 split: if_splits)

lemma lru_inv_evictOldest: "lru_inv c \<Longrightarrow> lru_inv (evictOldest c)"
  by (simp add: evictOldest_def lru_inv_removeItem split: list.splits)

lemma length_evictOldest:
  "lru_inv c \<Longrightarrow> lru c \<noteq> [] \<Longrightarrow> length (lru (evictOldest c)) = length (lru c) - 1"
  by (auto simp: evictOldest_def removeItem_def length_remove1 split: list.splits)

lemma lru_inv_Get: "lru_inv c \<Longrightarrow> lru_inv (snd (MemoryCache_Get now k c))"
  unfolding MemoryCache_Get_def
  apply (auto split: option.splits simp: lru_inv_removeItem)
  apply (auto simp: lru_inv_def MoveToFront_def length_remove1 dom_def)
  done

lemma lru_inv_Set_existing:
  assumes "lru_inv c" "items c k = Some item"
  shows "lru_inv (c\<lparr>items := (items c)(k \<mapsto> item\<lparr>item_value := v, item_expiresAt := e\<rparr>),
                   lru := MoveToFront (item_key item) (lru c)\<rparr>)"
proof -
  from assms have ik: "item_key item = k" and kin: "k \<in> set (lru c)"
    by (auto simp: lru_inv_def)
  with assms show ?thesis
    by (auto simp: lru_inv_def MoveToFront_def length_remove1 dom_def)
qed

lemma lru_inv_push:
  assumes "lru_inv c" "items c k = None" "int (length (lru c)) < maxSize c"
  shows "lru_inv (c\<lparr>lru := k # lru c, items := (items c)(k \<mapsto> \<lparr>item_key = k, item_value = v, item_expiresAt = e\<rparr>)\<rparr>)"
  using assms by (auto simp: lru_inv_def dom_def)

lemma items_evictOldest_None: "items c k = None \<Longrightarrow> items (evictOldest c) k = None"
  by (simp add: evictOldest_def removeItem_def split: list.splits)

lemma maxSize_evictOldest: "maxSize (evictOldest c) = maxSize c"
  by (simp add: evictOldest_def removeItem_def split: list.splits)

lemma lru_inv_Set: "lru_inv c \<Longrightarrow> lru_inv (snd (MemoryCache_Set now k v ttl c))"
proof (cases "items c k")
  case (Some item)
  assume "lru_inv c"
  with Some show ?thesis
    by (simp add: MemoryCache_Set_def lru_inv_Set_existing)
next
  case None
  assume inv: "lru_inv c"
  show ?thesis
  proof (cases "int (length (lru c)) \<ge> maxSize c")
    case True
    with inv have ne: "lru c \<noteq> []" by (auto simp: lru_inv_def)
    have "int (length (lru (evictOldest c))) < maxSize (evictOldest c)"
      using inv ne True by (simp add: length_evictOldest maxSize_evictOldest lru_inv_def)
    with None True inv show ?thesis
      by (simp add: MemoryCache_Set_def Let_def lru_inv_push lru_inv_evictOldest items_evictOldest_None)
  next
    case False
    with None inv show ?thesis
      by (simp add: MemoryCache_Set_def Let_def lru_inv_push)
  qed
qed

lemma lru_inv_Delete: "lru_inv c \<Longrightarrow> lru_inv (snd (MemoryCache_Delete k c))"
  by (simp add: MemoryCache_Delete_def lru_inv_removeItem split: option.splits)

lemma lru_inv_Clear: "lru_inv c \<Longrightarrow> lru_inv (snd (MemoryCache_Clear c))"
  by (simp add: MemoryCache_Clear_def lru_inv_def)

lemma lru_inv_cleanupExpired: "lru_inv c \<Longrightarrow> lru_inv (cleanupExpired now c)"
proof -
  assume inv: "lru_inv c"
  have "int (length (filter P (lru c))) \<le> maxSize c" for P
    using inv length_filter_le [of P "lru c"] unfolding lru_inv_def by linarith
  with inv show ?thesis
    by (auto simp: lru_inv_def cleanupExpired_def expired_def dom_def split: option.splits if_splits)
qed

lemma lru_inv_apply_op: "lru_inv c \<Longrightarrow> lru_inv (apply_op x c)"
  by (cases "(x, c)" rule: apply_op.cases)
     (simp_all add: lru_inv_Get lru_inv_Set lru_inv_Delete lru_inv_Clear lru_inv_cleanupExpired)

lemma lru_inv_run_ops: "lru_inv c \<Longrightarrow> lru_inv (run_ops ops c)"
  by (induction ops arbitrary: c) (simp_all add: lru_inv_apply_op)

lemma sorted_wrt_remove1: "sorted_wrt P l \<Longrightarrow> sorted_wrt P (remove1 k l)"
  by (induction l) (auto dest: notin_set_remove1)

lemma sorted_wrt_eq_on:
  "(\<And>a b. a \<in> set l \<Longrightarrow> b \<in> set l \<Longrightarrow> P a b = Q a b) \<Longrightarrow> sorted_wrt P l = sorted_wrt Q l"
  by (induction l) auto

lemma older_upd_other: "a \<noteq> k \<Longrightarrow> b \<noteq> k \<Longrightarrow> older (m(k \<mapsto> n)) a b = older m a b"
  by (simp add: older_def split: option.splits)

lemma sorted_wrt_older_upd:
  "k \<notin> set l \<Longrightarrow> sorted_wrt (\<lambda>a b. older (m(k \<mapsto> n)) b a) l = sorted_wrt (\<lambda>a b. older m b a) l"
  by (rule sorted_wrt_eq_on, rule older_upd_other) auto

lemma stamp_inv_front:
  assumes "stamp_inv l0 n m" "set l \<subseteq> set l0" "sorted_wrt (\<lambda>a b. older m b a) l" "k \<notin> set l"
  shows "stamp_inv (k # l) (Suc n) (m(k \<mapsto> n))"
proof -
  have bound: "\<exists>i<n. m x = Some i" if "x \<in> set l" for x
    using that assms(1,2) by (auto simp: stamp_inv_def)
  have "older (m(k \<mapsto> n)) x k" if "x \<in> set l" for x
    using bound [OF that] that assms(4) by (auto simp: older_def)
  moreover have "sorted_wrt (\<lambda>a b. older (m(k \<mapsto> n)) b a) l"
    using assms(3,4) by (simp add: sorted_wrt_older_upd)
  moreover have "\<exists>i<Suc n. (m(k \<mapsto> n)) x = Some i" if "x \<in> set (k # l)" for x
    using that bound by (auto intro: less_SucI)
  ultimately show ?thesis
    by (simp add: stamp_inv_def)
qed

lemma stamp_inv_sub:
  assumes "stamp_inv l0 n m" "set l \<subseteq> set l0" "sorted_wrt (\<lambda>a b. older m b a) l"
  shows "stamp_inv l (Suc n) m"
proof -
  have "\<exists>i<Suc n. m x = Some i" if "x \<in> set l" for x
  proof -
    from that assms(2) have "x \<in> set l0" by blast
    with assms(1) obtain i where "i < n" "m x = Some i" by (auto simp: stamp_inv_def)
    then show ?thesis by (auto intro: less_SucI)
  qed
  with assms(3) show ?thesis by (simp add: stamp_inv_def)
qed

lemma stamp_inv_step: "stamp_inv l n m \<Longrightarrow> stamp_inv l (Suc n) m"
  by (rule stamp_inv_sub [where ?l0.0 = l]) (simp_all add: stamp_inv_def)

lemma stamp_inv_remove1_same: "stamp_inv l n m \<Longrightarrow> stamp_inv (remove1 k l) n m"
proof -
  assume a: "stamp_inv l n m"
  have "\<exists>i<n. m x = Some i" if "x \<in> set (remove1 k l)" for x
  proof -
    from that have "x \<in> set l" by (metis notin_set_remove1)
    with a show ?thesis by (simp add: stamp_inv_def)
  qed
  moreover have "sorted_wrt (\<lambda>a b. older m b a) (remove1 k l)"
    using a by (simp add: stamp_inv_def sorted_wrt_remove1)
  ultimately show ?thesis by (simp add: stamp_inv_def)
qed

lemma stamp_inv_remove1: "stamp_inv l n m \<Longrightarrow> stamp_inv (remove1 k l) (Suc n) m"
  by (rule stamp_inv_sub [where ?l0.0 = l])
     (simp_all add: set_remove1_subset stamp_inv_def sorted_wrt_remove1)

lemma stamp_inv_filter: "stamp_inv l n m \<Longrightarrow> stamp_inv (filter P l) (Suc n) m"
  by (rule stamp_inv_sub [where ?l0.0 = l])
     (simp_all add: stamp_inv_def sorted_wrt_filter)

lemma stamp_inv_move:
  assumes "stamp_inv l n m" "distinct l"
  shows "stamp_inv (MoveToFront k l) (Suc n) (m(k \<mapsto> n))"
  unfolding MoveToFront_def
  by (rule stamp_inv_front [OF assms(1)])
     (use assms in \<open>simp_all add: set_remove1_subset stamp_inv_def sorted_wrt_remove1\<close>)

lemma sorted_wrt_butlast_last:
  "sorted_wrt P l \<Longrightarrow> x \<in> set (butlast l) \<Longrightarrow> P x (last l)"
  by (induction l) (auto split: if_splits dest: in_set_butlastD)

lemma stamp_inv_Get:
  assumes "lru_inv c" "stamp_inv (lru c) n m"
  shows "stamp_inv (lru (snd (MemoryCache_Get now k c))) (Suc n) (touch_upd (now, OpGet k) c n m)"
proof (cases "items c k")
  case None
  with assms(2) show ?thesis
    by (simp add: MemoryCache_Get_def touch_upd_def stamp_inv_step)
next
  case (Some item)
  with assms(1) have ik: "item_key item = k" by (simp add: lru_inv_def)
  from assms(1) have d: "distinct (lru c)" by (simp add: lru_inv_def)
  show ?thesis
    using Some ik assms(2) d
    by (simp add: MemoryCache_Get_def touch_upd_def removeItem_def stamp_inv_remove1 stamp_inv_move)
qed

lemma lru_evictOldest:
  "lru (evictOldest c) = (if lru c = [] then [] else remove1 (last (lru c)) (lru c))"
  by (cases "lru c") (simp_all add: evictOldest_def removeItem_def)

lemma stamp_inv_evictOldest:
  "stamp_inv (lru c) n m \<Longrightarrow> stamp_inv (lru (evictOldest c)) n m"
  by (auto simp: lru_evictOldest stamp_inv_remove1_same)

lemma stamp_inv_Set:
  assumes "lru_inv c" "stamp_inv (lru c) n m"
  shows "stamp_inv (lru (snd (MemoryCache_Set now k v ttl c))) (Suc n) (touch_upd (now, OpSet k v ttl) c n m)"
proof (cases "items c k")
  case (Some item)
  with assms(1) have ik: "item_key item = k" by (simp add: lru_inv_def)
  from assms(1) have d: "distinct (lru c)" by (simp add: lru_inv_def)
  show ?thesis
    using Some ik assms(2) d
    by (simp add: MemoryCache_Set_def touch_upd_def stamp_inv_move)
next
  case None
  define c1 where "c1 = (if int (length (lru c)) \<ge> maxSize c then evictOldest c else c)"
  have s1: "stamp_inv (lru c1) n m"
    using assms(2) by (simp add: c1_def stamp_inv_evictOldest)
  have "lru_inv c1" using assms(1) by (simp add: c1_def lru_inv_evictOldest)
  moreover have "items c1 k = None" using None by (simp add: c1_def items_evictOldest_None)
  ultimately have nin: "k \<notin> set (lru c1)" by (auto simp: lru_inv_def)
  have "stamp_inv (k # lru c1) (Suc n) (m(k \<mapsto> n))"
    by (rule stamp_inv_front [OF s1]) (use s1 nin in \<open>simp_all add: stamp_inv_def\<close>)
  with None show ?thesis
    by (simp add: MemoryCache_Set_def touch_upd_def Let_def c1_def)
qed

lemma stamp_inv_apply_op:
  assumes "lru_inv c" "stamp_inv (lru c) n m"
  shows "stamp_inv (lru (apply_op x c)) (Suc n) (touch_upd x c n m)"
proof (cases "(x, c)" rule: apply_op.cases)
  case (1 now k c')
  with assms show ?thesis by (simp add: stamp_inv_Get)
next
  case (2 now k v ttl c')
  with assms show ?thesis by (simp add: stamp_inv_Set)
next
  case (3 now k c')
  with assms show ?thesis
    by (simp add: MemoryCache_Delete_def touch_upd_def removeItem_def stamp_inv_remove1
                  stamp_inv_step split: option.splits)
next
  case (4 now k c')
  with assms show ?thesis
    by (simp add: touch_upd_def stamp_inv_step)
next
  case (5 now c')
  then show ?thesis by (simp add: MemoryCache_Clear_def touch_upd_def stamp_inv_def)
next
  case (6 now c')
  with assms show ?thesis by (simp add: cleanupExpired_def touch_upd_def stamp_inv_filter)
qed

lemma last_touch_touch_upd:
  "last_touch (x # xs) c n m = last_touch xs (apply_op x c) (Suc n) (touch_upd x c n m)"
  by (simp add: touch_upd_def)

lemma stamp_inv_run:
  "lru_inv c \<Longrightarrow> stamp_inv (lru c) n m \<Longrightarrow>
   \<exists>n'. stamp_inv (lru (run_ops ops c)) n' (last_touch ops c n m)"
proof (induction ops arbitrary: c n m)
  case Nil
  then show ?case by auto
next
  case (Cons x xs)
  have "lru_inv (apply_op x c)" using Cons.prems(1) by (rule lru_inv_apply_op)
  moreover have "stamp_inv (lru (apply_op x c)) (Suc n) (touch_upd x c n m)"
    using Cons.prems by (rule stamp_inv_apply_op)
  ultimately show ?case
    unfolding last_touch_touch_upd run_ops.simps by (rule Cons.IH)
qed

lemma maxSize_apply_op: "maxSize (apply_op x c) = maxSize c"
  by (cases "(x, c)" rule: apply_op.cases)
     (auto simp: MemoryCache_Get_def MemoryCache_Set_def MemoryCache_Delete_def MemoryCache_Clear_def
        cleanupExpired_def removeItem_def maxSize_evictOldest Let_def split: option.splits)

lemma maxSize_run_ops: "maxSize (run_ops ops c) = maxSize c"
  by (induction ops arbitrary: c) (simp_all add: maxSize_apply_op)

lemma card_items: "lru_inv c \<Longrightarrow> card (dom (items c)) = length (lru c)"
  by (metis distinct_card lru_inv_def)

lemma remove1_last: "distinct l \<Longrightarrow> l \<noteq> [] \<Longrightarrow> remove1 (last l) l = butlast l"
  by (induction l) (auto simp: remove1_idem)

lemma Set_new_lru:
  assumes "lru_inv c" "items c k = None"
  shows "lru (snd (MemoryCache_Set now k v ttl c)) = take (nat (maxSize c)) (k # lru c)"
proof (cases "int (length (lru c)) \<ge> maxSize c")
  case True
  with assms(1) have len: "int (length (lru c)) = maxSize c" and ne: "lru c \<noteq> []"
    and d: "distinct (lru c)"
    by (auto simp: lru_inv_def)
  from len have n: "nat (maxSize c) = length (lru c)" by simp
  have "take (length (lru c)) (k # lru c) = k # butlast (lru c)"
    using ne by (cases "length (lru c)") (simp_all add: butlast_conv_take)
  with True assms(2) d ne show ?thesis
    by (simp add: MemoryCache_Set_def Let_def lru_evictOldest remove1_last n)
next
  case False
  with assms(2) show ?thesis
    by (simp add: MemoryCache_Set_def Let_def)
qed

lemma take_append_take: "take n (a @ take n b) = take n (a @ b)"
  by (simp add: min_def)

lemma run_sets_lru:
  "lru_inv c \<Longrightarrow> distinct (map set_key xs) \<Longrightarrow> set (map set_key xs) \<inter> set (lru c) = {} \<Longrightarrow>
   lru (run_ops (map set_op xs) c) = take (nat (maxSize c)) (rev (map set_key xs) @ lru c)"
proof (induction xs arbitrary: c)
  case Nil
  then have "length (lru c) \<le> nat (maxSize c)" unfolding lru_inv_def by linarith
  then show ?case by simp
next
  case (Cons x xs)
  obtain now k v ttl where x: "x = (now, k, v, ttl)" by (cases x) auto
  let ?c1 = "snd (MemoryCache_Set now k v ttl c)"
  from Cons.prems have kn: "items c k = None"
    by (auto simp: x lru_inv_def dom_def)
  have l1: "lru ?c1 = take (nat (maxSize c)) (k # lru c)"
    using Cons.prems(1) kn by (rule Set_new_lru)
  have inv1: "lru_inv ?c1" using Cons.prems(1) by (rule lru_inv_Set)
  have m1: "maxSize ?c1 = maxSize c"
    using maxSize_apply_op [of "(now, OpSet k v ttl)" c] by simp
  have "set (lru ?c1) \<subseteq> insert k (set (lru c))"
    unfolding l1 using set_take_subset [of "nat (maxSize c)" "k # lru c"] by simp
  with Cons.prems have disj: "set (map set_key xs) \<inter> set (lru ?c1) = {}"
    by (auto simp: x)
  have "lru (run_ops (map set_op xs) ?c1) = take (nat (maxSize ?c1)) (rev (map set_key xs) @ lru ?c1)"
    using inv1 _ disj by (rule Cons.IH) (use Cons.prems in simp)
  then show ?case
    by (simp add: x m1 l1 take_append_take del: take_Cons')
qed

lemma run_sets_card:
  assumes "distinct (map set_key xs)" "int (length xs) \<ge> maxSize (NewMemoryCache n)"
  shows "card (dom (items (run_ops (map set_op xs) (NewMemoryCache n)))) = nat (maxSize (NewMemoryCache n))"
proof -
  let ?c0 = "NewMemoryCache n"
  have "lru (run_ops (map set_op xs) ?c0) = take (nat (maxSize ?c0)) (rev (map set_key xs) @ lru ?c0)"
    using lru_inv_New assms(1) by (rule run_sets_lru) (simp add: NewMemoryCache_def)
  then have "length (lru (run_ops (map set_op xs) ?c0)) = nat (maxSize ?c0)"
    using assms(2) by (simp add: NewMemoryCache_def)
  then show ?thesis
    by (simp add: card_items lru_inv_run_ops lru_inv_New)
qed

lemma bound_run_ops:
  "card (dom (items (run_ops ops (NewMemoryCache n)))) \<le> nat (maxSize (NewMemoryCache n))"
proof -
  have inv: "lru_inv (run_ops ops (NewMemoryCache n))"
    by (simp add: lru_inv_run_ops lru_inv_New)
  then have "int (length (lru (run_ops ops (NewMemoryCache n)))) \<le> maxSize (NewMemoryCache n)"
    by (simp add: lru_inv_def maxSize_run_ops)
  with inv show ?thesis by (simp add: card_items)
qed

lemma evict_least_recent:
  assumes "c = run_ops ops (NewMemoryCache n)" "m = last_touch ops (NewMemoryCache n) 0 Map.empty"
    and "items c k = None" "maxSize c \<le> int (length (lru c))"
  shows "least_recently_touched m (lru c) (last (lru c))"
    and "lru (snd (MemoryCache_Set now k v ttl c)) = k # butlast (lru c)"
    and "items (snd (MemoryCache_Set now k v ttl c)) =
           (items c)(last (lru c) := None,
                     k \<mapsto> \<lparr>item_key = k, item_value = v, item_expiresAt = now + ttl\<rparr>)"
proof -
  have inv: "lru_inv c" unfolding assms(1) by (simp add: lru_inv_run_ops lru_inv_New)
  with assms(4) have ne: "lru c \<noteq> []" and d: "distinct (lru c)" by (auto simp: lru_inv_def)
  have "stamp_inv (lru (NewMemoryCache n)) 0 Map.empty"
    by (simp add: stamp_inv_def NewMemoryCache_def)
  with lru_inv_New obtain n' where "stamp_inv (lru c) n' m"
    unfolding assms(1,2) using stamp_inv_run by blast
  then have bound: "\<forall>x \<in> set (lru c). \<exists>i<n'. m x = Some i"
    and sorted: "sorted_wrt (\<lambda>a b. older m b a) (lru c)"
    by (simp_all add: stamp_inv_def)
  have "older m (last (lru c)) x" if "x \<in> set (lru c)" "x \<noteq> last (lru c)" for x
  proof -
    from that ne have "x \<in> set (butlast (lru c))"
      by (metis append_butlast_last_id in_set_conv_decomp rotate1.simps(2) set_ConsD set_rotate1)
    with sorted show ?thesis by (rule sorted_wrt_butlast_last)
  qed
  with ne show "least_recently_touched m (lru c) (last (lru c))"
    by (simp add: least_recently_touched_def)
  show "lru (snd (MemoryCache_Set now k v ttl c)) = k # butlast (lru c)"
    using assms(3,4) ne d by (simp add: MemoryCache_Set_def Let_def lru_evictOldest remove1_last)
  show "items (snd (MemoryCache_Set now k v ttl c)) =
           (items c)(last (lru c) := None,
                     k \<mapsto> \<lparr>item_key = k, item_value = v, item_expiresAt = now + ttl\<rparr>)"
    using assms(3,4) ne by (cases "lru c") (simp_all add: MemoryCache_Set_def Let_def evictOldest_def removeItem_def)
qed

lemma lru_scenario_get:
  assumes "a \<noteq> b" "\<not> t3 > t1 + ttla"
  shows "fst (MemoryCache_Get t3 a (run_ops [(t1, OpSet a va ttla), (t2, OpSet b vb ttlb)] (NewMemoryCache 2))) = (va, None)"
  using assms
  by (auto simp: NewMemoryCache_def MemoryCache_Set_def MemoryCache_Get_def MoveToFront_def
        evictOldest_def removeItem_def Let_def split: if_splits)

lemma lru_scenario_evicts:
  assumes "a \<noteq> b" "a \<noteq> k" "b \<noteq> k" "\<not> t3 > t1 + ttla"
  shows "dom (items (run_ops [(t1, OpSet a va ttla), (t2, OpSet b vb ttlb), (t3, OpGet a), (t4, OpSet k vk ttlk)]
             (NewMemoryCache 2))) = {a, k}"
  using assms
  by (auto simp: NewMemoryCache_def MemoryCache_Set_def MemoryCache_Get_def MoveToFront_def
        evictOldest_def removeItem_def Let_def split: if_splits)

text \<open>
  C5. A cache built by \<open>NewMemoryCache n\<close> has capacity \<open>maxSize\<close> (that is \<open>n\<close> when
  \<open>n\<close> is positive). After any sequence of operations (\<open>Get\<close>, \<open>Set\<close>, \<open>Delete\<close>,
  \<open>Exists\<close>, \<open>Clear\<close>, sweeps) at most that many entries are present, and the recency
  list holds exactly the present keys. Setting one more than the capacity of distinct
  keys into the new cache leaves exactly the capacity of keys. A \<open>Set\<close> of a new key at
  capacity evicts one key, the last of the recency list, and that key is the least
  recently touched of the present keys, where every \<open>Set\<close> and every \<open>Get\<close> that finds
  an unexpired entry count as a touch; all other entries stay. With capacity 2,
  \<open>Set(a)\<close>, \<open>Set(b)\<close>, \<open>Get(a)\<close> (before \<open>a\<close> expires), \<open>Set(k)\<close> leaves \<open>a\<close> and \<open>k\<close>.
\<close>

theorem MemoryCache_lru_bound:
  fixes n :: int
  shows
  "(0 < n \<longrightarrow> maxSize (NewMemoryCache n) = n) \<and>
   card (dom (items (run_ops ops (NewMemoryCache n)))) \<le> nat (maxSize (NewMemoryCache n)) \<and>
   set (lru (run_ops ops (NewMemoryCache n))) = dom (items (run_ops ops (NewMemoryCache n))) \<and>
   (distinct (map set_key xs) \<and> int (length xs) = maxSize (NewMemoryCache n) + 1 \<longrightarrow>
      card (dom (items (run_ops (map set_op xs) (NewMemoryCache n)))) = nat (maxSize (NewMemoryCache n))) \<and>
   (items (run_ops ops (NewMemoryCache n)) k = None \<and>
    maxSize (run_ops ops (NewMemoryCache n)) \<le> int (length (lru (run_ops ops (NewMemoryCache n)))) \<longrightarrow>
      least_recently_touched (last_touch ops (NewMemoryCache n) 0 Map.empty)
        (lru (run_ops ops (NewMemoryCache n))) (last (lru (run_ops ops (NewMemoryCache n)))) \<and>
      items (snd (MemoryCache_Set now k v ttl (run_ops ops (NewMemoryCache n)))) =
        (items (run_ops ops (NewMemoryCache n)))
          (last (lru (run_ops ops (NewMemoryCache n))) := None,
           k \<mapsto> \<lparr>item_key = k, item_value = v, item_expiresAt = now + ttl\<rparr>)) \<and>
   (a \<noteq> b \<and> a \<noteq> k \<and> b \<noteq> k \<and> \<not> t3 > t1 + ttla \<longrightarrow>
      fst (MemoryCache_Get t3 a
            (run_ops [(t1, OpSet a va ttla), (t2, OpSet b vb ttlb)] (NewMemoryCache 2))) = (va, None) \<and>
      dom (items (run_ops [(t1, OpSet a va ttla), (t2, OpSet b vb ttlb), (t3, OpGet a),
                           (t4, OpSet k v ttl)] (NewMemoryCache 2))) = {a, k})"
proof (intro conjI impI)
  show "0 < n \<Longrightarrow> maxSize (NewMemoryCache n) = n" by (simp add: NewMemoryCache_def)
  show "card (dom (items (run_ops ops (NewMemoryCache n)))) \<le> nat (maxSize (NewMemoryCache n))"
    by (rule bound_run_ops)
  have inv: "lru_inv (run_ops ops (NewMemoryCache n))"
    by (simp add: lru_inv_run_ops lru_inv_New)
  then show "set (lru (run_ops ops (NewMemoryCache n))) = dom (items (run_ops ops (NewMemoryCache n)))"
    by (simp add: lru_inv_def)
next
  assume "distinct (map set_key xs) \<and> int (length xs) = maxSize (NewMemoryCache n) + 1"
  then show "card (dom (items (run_ops (map set_op xs) (NewMemoryCache n)))) = nat (maxSize (NewMemoryCache n))"
    by (intro run_sets_card) simp_all
next
  assume h: "items (run_ops ops (NewMemoryCache n)) k = None \<and>
    maxSize (run_ops ops (NewMemoryCache n)) \<le> int (length (lru (run_ops ops (NewMemoryCache n))))"
  from h show "least_recently_touched (last_touch ops (NewMemoryCache n) 0 Map.empty)
        (lru (run_ops ops (NewMemoryCache n))) (last (lru (run_ops ops (NewMemoryCache n))))"
    using evict_least_recent(1) [OF refl refl, of ops n k] by simp
  from h show "items (snd (MemoryCache_Set now k v ttl (run_ops ops (NewMemoryCache n)))) =
        (items (run_ops ops (NewMemoryCache n)))
          (last (lru (run_ops ops (NewMemoryCache n))) := None,
           k \<mapsto> \<lparr>item_key = k, item_value = v, item_expiresAt = now + ttl\<rparr>)"
    using evict_least_recent(3) [OF refl refl, of ops n k] by simp
next
  assume h: "a \<noteq> b \<and> a \<noteq> k \<and> b \<noteq> k \<and> \<not> t3 > t1 + ttla"
  then show "fst (MemoryCache_Get t3 a
            (run_ops [(t1, OpSet a va ttla), (t2, OpSet b vb ttlb)] (NewMemoryCache 2))) = (va, None)"
    by (intro lru_scenario_get) simp_all
  from h show "dom (items (run_ops [(t1, OpSet a va ttla), (t2, OpSet b vb ttlb), (t3, OpGet a),
                           (t4, OpSet k v ttl)] (NewMemoryCache 2))) = {a, k}"
    by (intro lru_scenario_evicts) simp_all
qed


lemma scenario_state:
  "run_ops [(0, OpSet ''a'' (Some ''1'') Hour), (1, OpSet ''b'' (Some ''2'') Hour), (2, OpGet ''a'')]
     (NewMemoryCache 2) =
   \<lparr>maxSize = 2,
    items = [''a'' \<mapsto> \<lparr>item_key = ''a'', item_value = Some ''1'', item_expiresAt = Hour\<rparr>,
             ''b'' \<mapsto> \<lparr>item_key = ''b'', item_value = Some ''2'', item_expiresAt = 1 + Hour\<rparr>],
    lru = [''a'', ''b'']\<rparr>"
  by (simp add: NewMemoryCache_def MemoryCache_Set_def MemoryCache_Get_def MoveToFront_def
        Let_def Hour_def Minute_def Second_def)

theorem MemoryCache_lru_bound_witness:
  "card (dom (items (run_ops
      (map set_op [(0, ''a'', Some ''1'', Hour), (1, ''b'', Some ''2'', Hour), (2, ''c'', Some ''3'', Hour)])
      (NewMemoryCache 2)))) = 2 \<and>
   least_recently_touched
     (last_touch [(0, OpSet ''a'' (Some ''1'') Hour), (1, OpSet ''b'' (Some ''2'') Hour), (2, OpGet ''a'')]
        (NewMemoryCache 2) 0 Map.empty)
     [''a'', ''b''] ''b'' \<and>
   dom (items (run_ops
      [(0, OpSet ''a'' (Some ''1'') Hour), (1, OpSet ''b'' (Some ''2'') Hour), (2, OpGet ''a''),
       (3, OpSet ''c'' (Some ''3'') Hour)] (NewMemoryCache 2))) = {''a'', ''c''}"
proof -
  let ?ops = "[(0, OpSet ''a'' (Some ''1'') Hour), (1, OpSet ''b'' (Some ''2'') Hour), (2, OpGet ''a'')]"
  let ?xs = "[(0, ''a'', Some ''1'', Hour), (1, ''b'', Some ''2'', Hour), (2, ''c'', Some ''3'', Hour)]"
  note T = MemoryCache_lru_bound
    [where n = 2 and ops = ?ops and xs = ?xs and k = "''c''" and now = 3 and v = "Some ''3''"
       and ttl = Hour and a = "''a''" and b = "''b''" and ?t3.0 = 2 and ?t1.0 = 0 and ttla = Hour
       and va = "Some ''1''" and ?t2.0 = 1 and vb = "Some ''2''" and ttlb = Hour and ?t4.0 = 3]
  have h1: "distinct (map set_key ?xs) \<and> int (length ?xs) = maxSize (NewMemoryCache 2) + 1"
    by (simp add: NewMemoryCache_def)
  have h2: "items (run_ops ?ops (NewMemoryCache 2)) ''c'' = None \<and>
            maxSize (run_ops ?ops (NewMemoryCache 2)) \<le> int (length (lru (run_ops ?ops (NewMemoryCache 2))))"
    unfolding scenario_state by simp
  have h3: "''a'' \<noteq> ''b'' \<and> ''a'' \<noteq> ''c'' \<and> ''b'' \<noteq> ''c'' \<and> \<not> 2 > 0 + Hour"
    by (simp add: Hour_def Minute_def Second_def)
  have c1: "card (dom (items (run_ops (map set_op ?xs) (NewMemoryCache 2)))) = 2"
    using T [THEN conjunct2, THEN conjunct2, THEN conjunct2, THEN conjunct1, THEN mp, OF h1]
    by (simp add: NewMemoryCache_def)
  have c2: "least_recently_touched (last_touch ?ops (NewMemoryCache 2) 0 Map.empty) [''a'', ''b''] ''b''"
    using T [THEN conjunct2, THEN conjunct2, THEN conjunct2, THEN conjunct2, THEN conjunct1,
             THEN mp, OF h2, THEN conjunct1]
    unfolding scenario_state by simp
  have c3: "dom (items (run_ops (?ops @ [(3, OpSet ''c'' (Some ''3'') Hour)]) (NewMemoryCache 2)))
             = {''a'', ''c''}"
    using T [THEN conjunct2, THEN conjunct2, THEN conjunct2, THEN conjunct2, THEN conjunct2,
             THEN mp, OF h3, THEN conjunct2]
    by simp
  from c1 c2 c3 show ?thesis by simp
qed

section \<open>Freshness checks\<close>

lemma no_fault_eq [simp]: "no_fault t q = None"
  by (simp add: no_fault_def)

lemma failing_eq [simp]: "failing e t q = Some e"
  by (simp add: failing_def)

lemma GetMetadata_no_fault:
  assumes "db_fault (db cm) now (SelectMetadata entityType entityKey) = None"
  shows "GetMetadata now cm entityType entityKey =
           (case cache_metadata (db cm) (entityType, entityKey) of
              None \<Rightarrow> Inr None
            | Some row \<Rightarrow>
                (case row_data_hash row of
                   None \<Rightarrow> Inl (wrapf ''failed to get cache metadata''
                              (Error ''sql: Scan error on column index 5: converting NULL to string is unsupported''))
                 | Some h \<Rightarrow>
                     Inr (Some \<lparr>ID = row_id row, EntityType = row_entity_type row,
                         EntityKey = row_entity_key row, CachedAt = row_cached_at row,
                         ExpiresAt = row_expires_at row, DataHash = h\<rparr>)))"
  using assms by (simp add: GetMetadata_def QueryRow_Scan_def split: option.splits)

text \<open>
  C2. When the metadata lookup succeeds and finds a record, \<open>NeedsRefresh\<close> is true exactly
  when the current instant is strictly after the record's \<open>expiresAt\<close>, so it is false at
  \<open>now = expiresAt\<close>; when the lookup succeeds and finds no record, it is true. In terms
  of the table, for a statement the database does not fail: no row gives true, and a row
  (with a hash) gives true exactly when \<open>now\<close> is after its \<open>expires_at\<close>.
\<close>

theorem NeedsRefresh_strictly_after:
  "(GetMetadata now cm entityType entityKey = Inr (Some metadata) \<longrightarrow>
      NeedsRefresh now cm entityType entityKey = (ExpiresAt metadata < now) \<and>
      (now = ExpiresAt metadata \<longrightarrow> \<not> NeedsRefresh now cm entityType entityKey)) \<and>
   (GetMetadata now cm entityType entityKey = Inr None \<longrightarrow>
      NeedsRefresh now cm entityType entityKey) \<and>
   (db_fault (db cm) now (SelectMetadata entityType entityKey) = None \<longrightarrow>
      (cache_metadata (db cm) (entityType, entityKey) = None \<longrightarrow>
         NeedsRefresh now cm entityType entityKey) \<and>
      (cache_metadata (db cm) (entityType, entityKey) = Some row \<and> row_data_hash row = Some h \<longrightarrow>
         NeedsRefresh now cm entityType entityKey = (row_expires_at row < now)))"
proof (intro conjI impI)
  assume "GetMetadata now cm entityType entityKey = Inr (Some metadata)"
  then show "NeedsRefresh now cm entityType entityKey = (ExpiresAt metadata < now)"
    by (simp add: NeedsRefresh_def)
next
  assume "GetMetadata now cm entityType entityKey = Inr (Some metadata)" "now = ExpiresAt metadata"
  then show "\<not> NeedsRefresh now cm entityType entityKey"
    by (simp add: NeedsRefresh_def)
next
  assume "GetMetadata now cm entityType entityKey = Inr None"
  then show "NeedsRefresh now cm entityType entityKey"
    by (simp add: NeedsRefresh_def)
next
  assume "db_fault (db cm) now (SelectMetadata entityType entityKey) = None"
    "cache_metadata (db cm) (entityType, entityKey) = None"
  then show "NeedsRefresh now cm entityType entityKey"
    by (simp add: NeedsRefresh_def GetMetadata_no_fault)
next
  assume "db_fault (db cm) now (SelectMetadata entityType entityKey) = None"
    "cache_metadata (db cm) (entityType, entityKey) = Some row \<and> row_data_hash row = Some h"
  then show "NeedsRefresh now cm entityType entityKey = (row_expires_at row < now)"
    by (simp add: NeedsRefresh_def GetMetadata_no_fault)
qed

theorem NeedsRefresh_strictly_after_witness:
  "\<not> NeedsRefresh 100
       \<lparr>redis = None,
        db = \<lparr>db_fault = no_fault,
              cache_metadata = [(''team'', ''64'') \<mapsto>
                \<lparr>row_id = 1, row_entity_type = ''team'', row_entity_key = ''64'',
                 row_cached_at = 0, row_expires_at = 100, row_data_hash = Some ''ab''\<rparr>],
              id_seq = 1\<rparr>\<rparr> ''team'' ''64'' \<and>
   NeedsRefresh 101
       \<lparr>redis = None,
        db = \<lparr>db_fault = no_fault,
              cache_metadata = [(''team'', ''64'') \<mapsto>
                \<lparr>row_id = 1, row_entity_type = ''team'', row_entity_key = ''64'',
                 row_cached_at = 0, row_expires_at = 100, row_data_hash = Some ''ab''\<rparr>],
              id_seq = 1\<rparr>\<rparr> ''team'' ''64'' \<and>
   NeedsRefresh 100
       \<lparr>redis = None,
        db = \<lparr>db_fault = no_fault, cache_metadata = Map.empty, id_seq = 0\<rparr>\<rparr> ''team'' ''64''"
proof -
  let ?row = "\<lparr>row_id = 1, row_entity_type = ''team'', row_entity_key = ''64'',
                 row_cached_at = 0, row_expires_at = 100, row_data_hash = Some ''ab''\<rparr>"
  let ?cm = "\<lparr>redis = None,
        db = \<lparr>db_fault = no_fault, cache_metadata = [(''team'', ''64'') \<mapsto> ?row],
              id_seq = 1\<rparr>\<rparr>"
  let ?empty = "\<lparr>redis = None,
        db = \<lparr>db_fault = no_fault, cache_metadata = Map.empty, id_seq = 0\<rparr>\<rparr>"
  let ?md = "\<lparr>ID = 1, EntityType = ''team'', EntityKey = ''64'', CachedAt = 0,
              ExpiresAt = 100, DataHash = ''ab''\<rparr>"
  have a: "\<not> NeedsRefresh 100 ?cm ''team'' ''64''"
    using NeedsRefresh_strictly_after [of 100 ?cm "''team''" "''64''" ?md ?row "''ab''",
        THEN conjunct2, THEN conjunct2] by simp
  have b: "NeedsRefresh 101 ?cm ''team'' ''64''"
    using NeedsRefresh_strictly_after [of 101 ?cm "''team''" "''64''" ?md ?row "''ab''",
        THEN conjunct2, THEN conjunct2] by simp
  have c: "NeedsRefresh 100 ?empty ''team'' ''64''"
    using NeedsRefresh_strictly_after [of 100 ?empty "''team''" "''64''" ?md ?row "''ab''",
        THEN conjunct2, THEN conjunct2] by simp
  from a b c show ?thesis by blast
qed

text \<open>
  C9. When the metadata lookup itself fails with an error, \<open>NeedsRefresh\<close> is true, as it is
  for a missing record. Any error of the database other than \<open>sql.ErrNoRows\<close> is such a
  failure, whatever the table holds.
\<close>

theorem NeedsRefresh_lookup_error:
  "(GetMetadata now cm entityType entityKey = Inl err \<longrightarrow>
      NeedsRefresh now cm entityType entityKey) \<and>
   (db_fault (db cm) now (SelectMetadata entityType entityKey) = Some e \<and> e \<noteq> ErrNoRows \<longrightarrow>
      GetMetadata now cm entityType entityKey = Inl (wrapf ''failed to get cache metadata'' e) \<and>
      NeedsRefresh now cm entityType entityKey)"
  by (simp add: NeedsRefresh_def GetMetadata_def QueryRow_Scan_def)

theorem NeedsRefresh_lookup_error_witness:
  "NeedsRefresh 50
       \<lparr>redis = None,
        db = \<lparr>db_fault = failing (Error ''connection refused''),
              cache_metadata = [(''team'', ''64'') \<mapsto>
                \<lparr>row_id = 1, row_entity_type = ''team'', row_entity_key = ''64'',
                 row_cached_at = 0, row_expires_at = 100, row_data_hash = Some ''ab''\<rparr>],
              id_seq = 1\<rparr>\<rparr> ''team'' ''64''"
  using NeedsRefresh_lookup_error
    [of 50 "\<lparr>redis = None,
        db = \<lparr>db_fault = failing (Error ''connection refused''),
              cache_metadata = [(''team'', ''64'') \<mapsto>
                \<lparr>row_id = 1, row_entity_type = ''team'', row_entity_key = ''64'',
                 row_cached_at = 0, row_expires_at = 100, row_data_hash = Some ''ab''\<rparr>],
              id_seq = 1\<rparr>\<rparr>" "''team''" "''64''" "Error ''x''" "Error ''connection refused''"]
  by simp

section \<open>Cache misses\<close>

text \<open>
  C8. \<open>Get\<close> on a key that is not in the cache returns no value and no error, from both
  backends: the in-memory cache when the key has no item (or an expired one), the
  networked cache when the server answers that the key is missing (\<open>redis.Nil\<close>), which
  it does for a key absent from its keyspace. The same holds through the interface.
\<close>

theorem Get_miss_is_not_an_error:
  "(items c k = None \<or> expired now c k \<longrightarrow> fst (MemoryCache_Get now k c) = (None, None)) \<and>
   (client_Get now k r = Inl RedisNil \<longrightarrow> RedisCache_Get now k r = (None, None)) \<and>
   (redis_fault r now (CmdGet k) = None \<and> keyspace r k = None \<longrightarrow>
      client_Get now k r = Inl RedisNil \<and> RedisCache_Get now k r = (None, None)) \<and>
   (items c k = None \<longrightarrow> fst (Cache_Get now k (Memory c)) = (None, None)) \<and>
   (redis_fault r now (CmdGet k) = None \<and> keyspace r k = None \<longrightarrow>
      fst (Cache_Get now k (Redis r)) = (None, None))"
  by (auto simp: MemoryCache_Get_def expired_def RedisCache_Get_def client_Get_def live_def
        Cache_Get_def split: option.splits)

theorem Get_miss_is_not_an_error_witness:
  "fst (MemoryCache_Get 5 ''competition:PL'' (NewMemoryCache 2)) = (None, None) \<and>
   RedisCache_Get 5 ''competition:PL'' \<lparr>redis_fault = no_fault, keyspace = Map.empty\<rparr>
     = (None, None)"
  using Get_miss_is_not_an_error
    [of "NewMemoryCache 2" "''competition:PL''" 5
        "\<lparr>redis_fault = no_fault, keyspace = Map.empty\<rparr>"]
  by (simp add: NewMemoryCache_def)

section \<open>The TTL of freshness metadata\<close>










section \<open>Invalidation\<close>

lemma NeedsRefresh_no_row:
  "cache_metadata (db cm) (t, k) = None \<Longrightarrow> NeedsRefresh now cm t k"
  by (auto simp: NeedsRefresh_def GetMetadata_def QueryRow_Scan_def split: option.splits sum.splits)

lemma InvalidateEntity_ok:
  assumes "fst (InvalidateEntity now cm t k) = None"
  shows "cache_metadata (db (snd (InvalidateEntity now cm t k))) (t, k) = None"
    and "redis (snd (InvalidateEntity now cm t k)) =
           map_option (\<lambda>c. snd (Cache_Delete now (''football:'' @ t @ '':'' @ k) c)) (redis cm)"
  using assms
  by (auto simp: InvalidateEntity_def Exec_delete_def Let_def split: option.splits sum.splits)

lemma Cache_Delete_ok:
  "Cache_wf c \<Longrightarrow> fst (Cache_Delete now key c) = None \<Longrightarrow>
   \<not> Cache_holds (snd (Cache_Delete now key c)) key"
  by (cases c)
     (auto simp: Cache_Delete_def Cache_holds_def Cache_wf_def lru_inv_def MemoryCache_Delete_def
        removeItem_def RedisCache_Delete_def client_Del_def split: option.splits)

lemma Cache_Delete_Memory: "fst (Cache_Delete now key (Memory m)) = None"
  by (simp add: Cache_Delete_def MemoryCache_Delete_def split: option.splits)

text \<open>
  C6, as the specification states it, fails in its second part: with the networked
  backend unreachable, \<open>InvalidateEntity("competition", "PL")\<close> deletes the metadata row
  and returns no error, yet the backend still holds \<open>football:competition:PL\<close>, because
  the error of the backend's \<open>Delete\<close> is discarded.
\<close>

theorem InvalidateEntity_volatile_key_counterexample:
  "fst (InvalidateEntity 10
          \<lparr>redis = Some (Redis \<lparr>redis_fault = failing (Error ''connection refused''),
                                keyspace = [''football:competition:PL'' \<mapsto> (''{}'', None)]\<rparr>),
           db = \<lparr>db_fault = no_fault, cache_metadata = Map.empty, id_seq = 0\<rparr>\<rparr>
          ''competition'' ''PL'') = None \<and>
   redis (snd (InvalidateEntity 10
          \<lparr>redis = Some (Redis \<lparr>redis_fault = failing (Error ''connection refused''),
                                keyspace = [''football:competition:PL'' \<mapsto> (''{}'', None)]\<rparr>),
           db = \<lparr>db_fault = no_fault, cache_metadata = Map.empty, id_seq = 0\<rparr>\<rparr>
          ''competition'' ''PL''))
     = Some (Redis \<lparr>redis_fault = failing (Error ''connection refused''),
                     keyspace = [''football:competition:PL'' \<mapsto> (''{}'', None)]\<rparr>) \<and>
   Cache_holds (Redis \<lparr>redis_fault = failing (Error ''connection refused''),
                       keyspace = [''football:competition:PL'' \<mapsto> (''{}'', None)]\<rparr>)
     ''football:competition:PL''"
  by (simp add: InvalidateEntity_def Exec_delete_def Cache_Delete_def RedisCache_Delete_def
        client_Del_def Cache_holds_def)

text \<open>
  C6, amended. A successful \<open>InvalidateEntity(entityType, entityKey)\<close> deletes the
  freshness record, so that \<open>NeedsRefresh\<close> for the entity is true at any instant
  afterwards, whatever it was before. When a volatile backend is configured it also
  asks that backend to delete the key \<open>football:entityType:entityKey\<close> and ignores the
  outcome: the key is gone whenever that delete succeeds, as it always does on the
  in-memory backend; without a backend nothing else happens.
\<close>

theorem InvalidateEntity_forces_refresh:
  "fst (InvalidateEntity now cm entityType entityKey) = None \<longrightarrow>
     cache_metadata (db (snd (InvalidateEntity now cm entityType entityKey))) (entityType, entityKey) = None \<and>
     NeedsRefresh now' (snd (InvalidateEntity now cm entityType entityKey)) entityType entityKey \<and>
     (redis cm = None \<longrightarrow> redis (snd (InvalidateEntity now cm entityType entityKey)) = None) \<and>
     (redis cm = Some c \<longrightarrow>
        redis (snd (InvalidateEntity now cm entityType entityKey)) =
          Some (snd (Cache_Delete now (''football:'' @ entityType @ '':'' @ entityKey) c)) \<and>
        (Cache_wf c \<and> fst (Cache_Delete now (''football:'' @ entityType @ '':'' @ entityKey) c) = None \<longrightarrow>
           \<not> Cache_holds (snd (Cache_Delete now (''football:'' @ entityType @ '':'' @ entityKey) c))
                (''football:'' @ entityType @ '':'' @ entityKey))) \<and>
     (redis cm = Some (Memory m) \<and> lru_inv m \<longrightarrow>
        (\<exists>m'. redis (snd (InvalidateEntity now cm entityType entityKey)) = Some (Memory m') \<and>
              items m' (''football:'' @ entityType @ '':'' @ entityKey) = None))"
proof (intro impI)
  assume ok: "fst (InvalidateEntity now cm entityType entityKey) = None"
  let ?cm' = "snd (InvalidateEntity now cm entityType entityKey)"
  let ?key = "''football:'' @ entityType @ '':'' @ entityKey"
  have row: "cache_metadata (db ?cm') (entityType, entityKey) = None"
    using ok by (rule InvalidateEntity_ok(1))
  have red: "redis ?cm' = map_option (\<lambda>c. snd (Cache_Delete now ?key c)) (redis cm)"
    using ok by (rule InvalidateEntity_ok(2))
  have mem: "\<exists>m'. redis ?cm' = Some (Memory m') \<and> items m' ?key = None"
    if "redis cm = Some (Memory m) \<and> lru_inv m"
    using Cache_Delete_ok [OF _ Cache_Delete_Memory, of m now ?key] that
    by (simp add: red Cache_Delete_def Cache_holds_def Cache_wf_def)
  show "cache_metadata (db ?cm') (entityType, entityKey) = None \<and>
     NeedsRefresh now' ?cm' entityType entityKey \<and>
     (redis cm = None \<longrightarrow> redis ?cm' = None) \<and>
     (redis cm = Some c \<longrightarrow>
        redis ?cm' = Some (snd (Cache_Delete now ?key c)) \<and>
        (Cache_wf c \<and> fst (Cache_Delete now ?key c) = None \<longrightarrow>
           \<not> Cache_holds (snd (Cache_Delete now ?key c)) ?key)) \<and>
     (redis cm = Some (Memory m) \<and> lru_inv m \<longrightarrow>
        (\<exists>m'. redis ?cm' = Some (Memory m') \<and> items m' ?key = None))"
    using row mem by (simp add: NeedsRefresh_no_row red Cache_Delete_ok)
qed


theorem InvalidateEntity_forces_refresh_witness:
  "\<not> NeedsRefresh 10
      \<lparr>redis = Some (Memory \<lparr>maxSize = 2,
          items = [''football:competition:PL'' \<mapsto>
            \<lparr>item_key = ''football:competition:PL'', item_value = Some ''{}'', item_expiresAt = 50\<rparr>],
          lru = [''football:competition:PL'']\<rparr>),
       db = \<lparr>db_fault = no_fault,
             cache_metadata = [(''competition'', ''PL'') \<mapsto>
               \<lparr>row_id = 1, row_entity_type = ''competition'', row_entity_key = ''PL'',
                row_cached_at = 0, row_expires_at = 100, row_data_hash = Some ''ab''\<rparr>],
             id_seq = 1\<rparr>\<rparr> ''competition'' ''PL'' \<and>
   NeedsRefresh 10 (snd (InvalidateEntity 10
      \<lparr>redis = Some (Memory \<lparr>maxSize = 2,
          items = [''football:competition:PL'' \<mapsto>
            \<lparr>item_key = ''football:competition:PL'', item_value = Some ''{}'', item_expiresAt = 50\<rparr>],
          lru = [''football:competition:PL'']\<rparr>),
       db = \<lparr>db_fault = no_fault,
             cache_metadata = [(''competition'', ''PL'') \<mapsto>
               \<lparr>row_id = 1, row_entity_type = ''competition'', row_entity_key = ''PL'',
                row_cached_at = 0, row_expires_at = 100, row_data_hash = Some ''ab''\<rparr>],
             id_seq = 1\<rparr>\<rparr> ''competition'' ''PL'')) ''competition'' ''PL''"
proof -
  let ?m = "\<lparr>maxSize = 2,
          items = [''football:competition:PL'' \<mapsto>
            \<lparr>item_key = ''football:competition:PL'', item_value = Some ''{}'', item_expiresAt = 50\<rparr>],
          lru = [''football:competition:PL'']\<rparr>"
  let ?cm = "\<lparr>redis = Some (Memory ?m),
       db = \<lparr>db_fault = no_fault,
             cache_metadata = [(''competition'', ''PL'') \<mapsto>
               \<lparr>row_id = 1, row_entity_type = ''competition'', row_entity_key = ''PL'',
                row_cached_at = 0, row_expires_at = 100, row_data_hash = Some ''ab''\<rparr>],
             id_seq = 1\<rparr>\<rparr>"
  have ok: "fst (InvalidateEntity 10 ?cm ''competition'' ''PL'') = None"
    by (simp add: InvalidateEntity_def Exec_delete_def)
  have before: "\<not> NeedsRefresh 10 ?cm ''competition'' ''PL''"
    by (simp add: NeedsRefresh_def GetMetadata_def QueryRow_Scan_def)
  have after: "NeedsRefresh 10 (snd (InvalidateEntity 10 ?cm ''competition'' ''PL'')) ''competition'' ''PL''"
    using InvalidateEntity_forces_refresh
      [where now = 10 and now' = 10 and cm = ?cm and entityType = "''competition''"
         and entityKey = "''PL''" and c = "Memory ?m" and m = ?m, THEN mp, OF ok]
    by blast
  from before after show ?thesis by blast
qed

section \<open>Writes to the volatile tier\<close>

text \<open>
  C10. \<open>CacheManager.Set\<close> returns no error for every key, value and TTL. Without a
  volatile backend it does nothing, and a following \<open>Get\<close> finds nothing. When the
  backend's \<open>Set\<close> fails, the error is logged as a warning and dropped; on the networked
  backend the manager is then unchanged and a key that was absent stays absent, so the
  return of \<open>Set\<close> without error does not mean the value can be read back.
\<close>

theorem CacheManager_Set_swallows_errors:
  "fst (CacheManager_Set now cm k data ttl) = None \<and>
   (redis cm = None \<longrightarrow>
      CacheManager_Set now cm k data ttl = (None, [], cm) \<and>
      fst (CacheManager_Get now' cm k) = (None, None)) \<and>
   (redis cm = Some c \<and> fst (Cache_Set now k data ttl c) = Some err \<longrightarrow>
      fst (snd (CacheManager_Set now cm k data ttl)) =
        [(LevelWarn, ''Failed to set Redis cache'', [(''key'', k), (''error'', message err)])]) \<and>
   (redis cm = Some (Redis r) \<and>
    redis_fault r now (CmdSet k (case data of None \<Rightarrow> [] | Some b \<Rightarrow> b) ttl) = Some err \<longrightarrow>
      CacheManager_Set now cm k data ttl =
        (None, [(LevelWarn, ''Failed to set Redis cache'', [(''key'', k), (''error'', message err)])], cm) \<and>
      (keyspace r k = None \<longrightarrow>
         fst (CacheManager_Get now' (snd (snd (CacheManager_Set now cm k data ttl))) k) = (None, None)))"
  by (auto simp: CacheManager_Set_def CacheManager_Get_def Cache_Set_def Cache_Get_def Let_def
        RedisCache_Set_def RedisCache_Get_def client_Set_def client_Get_def live_def
        split: option.splits sum.splits)

theorem CacheManager_Set_swallows_errors_witness:
  "CacheManager_Set 10
      \<lparr>redis = Some (Redis \<lparr>redis_fault = failing (Error ''connection refused''), keyspace = Map.empty\<rparr>),
       db = \<lparr>db_fault = no_fault, cache_metadata = Map.empty, id_seq = 0\<rparr>\<rparr>
      ''competition:PL'' (Some ''{}'') Hour =
     (None,
      [(LevelWarn, ''Failed to set Redis cache'',
        [(''key'', ''competition:PL''), (''error'', ''connection refused'')])],
      \<lparr>redis = Some (Redis \<lparr>redis_fault = failing (Error ''connection refused''), keyspace = Map.empty\<rparr>),
       db = \<lparr>db_fault = no_fault, cache_metadata = Map.empty, id_seq = 0\<rparr>\<rparr>) \<and>
   fst (CacheManager_Get 11
      \<lparr>redis = Some (Redis \<lparr>redis_fault = failing (Error ''connection refused''), keyspace = Map.empty\<rparr>),
       db = \<lparr>db_fault = no_fault, cache_metadata = Map.empty, id_seq = 0\<rparr>\<rparr>
      ''competition:PL'') = (None, None)"
proof -
  let ?r = "\<lparr>redis_fault = failing (Error ''connection refused''), keyspace = Map.empty\<rparr>"
  let ?cm = "\<lparr>redis = Some (Redis ?r),
       db = \<lparr>db_fault = no_fault, cache_metadata = Map.empty, id_seq = 0\<rparr>\<rparr>"
  have h: "redis ?cm = Some (Redis ?r) \<and>
    redis_fault ?r 10 (CmdSet ''competition:PL'' (case Some ''{}'' of None \<Rightarrow> [] | Some b \<Rightarrow> b) Hour)
      = Some (Error ''connection refused'')"
    by simp
  note T = CacheManager_Set_swallows_errors
      [where now = 10 and now' = 11 and cm = ?cm and k = "''competition:PL''" and data = "Some ''{}''"
         and ttl = Hour and r = ?r and err = "Error ''connection refused''",
       THEN conjunct2, THEN conjunct2, THEN conjunct2, THEN mp, OF h]
  from T [THEN conjunct1] have a: "CacheManager_Set 10 ?cm ''competition:PL'' (Some ''{}'') Hour =
      (None, [(LevelWarn, ''Failed to set Redis cache'',
               [(''key'', ''competition:PL''), (''error'', ''connection refused'')])], ?cm)"
    by simp
  from T [THEN conjunct2] have b: "fst (CacheManager_Get 11
      (snd (snd (CacheManager_Set 10 ?cm ''competition:PL'' (Some ''{}'') Hour))) ''competition:PL'')
      = (None, None)"
    by simp
  from a b [unfolded a] show ?thesis by simp
qed

section \<open>Rate limiting\<close>

lemma gap_eq: "rateLimitDuration div requestsPerMinute = 6 * Second"
  by (simp add: rateLimitDuration_def requestsPerMinute_def Minute_def Second_def)

lemma rateLimit_gap:
  "lastRequest c = Some l \<Longrightarrow> l + 6 * Second \<le> rateLimit env t c"
  by (simp add: rateLimit_def gap_eq Let_def)

lemma lastRequest_doRequest:
  "lastRequest (snd (snd (doRequest env endpoint tc))) = Some (rateLimit env (fst tc) (snd tc))"
  by (simp add: doRequest_def Let_def split: option.splits sum.splits)

lemma permits_Cons:
  "permits env ((idle, endpoint) # calls) tc =
     rateLimit env (fst tc + int idle) (snd tc) #
       permits env calls (snd (doRequest env endpoint (fst tc + int idle, snd tc)))"
  by (simp add: Let_def lastRequest_doRequest)

lemma length_permits: "length (permits env calls tc) = length calls"
proof (induction calls arbitrary: tc)
  case Nil
  show ?case by simp
next
  case (Cons x calls)
  obtain idle endpoint where x: "x = (idle, endpoint)" by (cases x)
  show ?case unfolding x permits_Cons by (simp add: Cons.IH)
qed

lemma spaced_permits_from:
  "lastRequest (snd tc) = Some l \<Longrightarrow> spaced (6 * Second) (l # permits env calls tc)"
proof (induction calls arbitrary: tc l)
  case Nil
  show ?case by (simp add: spaced_def)
next
  case (Cons x calls)
  obtain idle endpoint where x: "x = (idle, endpoint)" by (cases x)
  let ?p = "rateLimit env (fst tc + int idle) (snd tc)"
  let ?tc' = "snd (doRequest env endpoint (fst tc + int idle, snd tc))"
  have "lastRequest (snd ?tc') = Some ?p"
    using lastRequest_doRequest [of env endpoint "(fst tc + int idle, snd tc)"] by simp
  then have "spaced (6 * Second) (?p # permits env calls ?tc')" by (rule Cons.IH)
  moreover have "l + 6 * Second \<le> ?p" using Cons.prems by (rule rateLimit_gap)
  ultimately show ?case unfolding x permits_Cons by (simp add: spaced_def)
qed

lemma spaced_permits: "spaced (6 * Second) (permits env calls tc)"
proof (cases calls)
  case Nil
  then show ?thesis by (simp add: spaced_def)
next
  case (Cons x rest)
  obtain idle endpoint where x: "x = (idle, endpoint)" by (cases x)
  let ?p = "rateLimit env (fst tc + int idle) (snd tc)"
  let ?tc' = "snd (doRequest env endpoint (fst tc + int idle, snd tc))"
  have "lastRequest (snd ?tc') = Some ?p"
    using lastRequest_doRequest [of env endpoint "(fst tc + int idle, snd tc)"] by simp
  then have "spaced (6 * Second) (?p # permits env rest ?tc')" by (rule spaced_permits_from)
  then show ?thesis unfolding Cons x permits_Cons .
qed

lemma spaced_tl: "spaced g (x # xs) \<Longrightarrow> spaced g xs"
  by (cases xs) (simp_all add: spaced_def)

lemma spaced_nth:
  "spaced g ps \<Longrightarrow> i \<le> j \<Longrightarrow> j < length ps \<Longrightarrow> ps ! i + int (j - i) * g \<le> ps ! j"
proof (induction ps arbitrary: i j)
  case Nil
  then show ?case by simp
next
  case (Cons x xs)
  have tl: "spaced g xs" using Cons.prems(1) by (rule spaced_tl)
  show ?case
  proof (cases i)
    case (Suc i')
    with Cons.prems obtain j' where j: "j = Suc j'" by (cases j) auto
    have "xs ! i' + int (j' - i') * g \<le> xs ! j'"
      using tl Cons.prems Suc j by (intro Cons.IH) simp_all
    then show ?thesis by (simp add: Suc j)
  next
    case 0
    show ?thesis
    proof (cases j)
      case 0
      with \<open>i = 0\<close> show ?thesis by simp
    next
      case (Suc j')
      with Cons.prems have len: "j' < length xs" by simp
      then obtain y ys where xs: "xs = y # ys" by (cases xs) auto
      have step: "x + g \<le> xs ! 0" using Cons.prems(1) by (simp add: xs spaced_def)
      have "xs ! 0 + int (j' - 0) * g \<le> xs ! j'"
        using tl len by (intro Cons.IH) simp_all
      with step have "x + g + int j' * g \<le> xs ! j'" by simp
      then show ?thesis by (simp add: \<open>i = 0\<close> Suc algebra_simps)
    qed
  qed
qed

lemma length_filter_mono:
  "(\<And>p. p \<in> set l \<Longrightarrow> P p \<Longrightarrow> Q p) \<Longrightarrow> length (filter P l) \<le> length (filter Q l)"
  by (induction l) auto

lemma spaced_lower:
  "0 \<le> g \<Longrightarrow> spaced g (x # xs) \<Longrightarrow> p \<in> set xs \<Longrightarrow> x + g \<le> p"
proof (induction xs arbitrary: x)
  case Nil
  then show ?case by simp
next
  case (Cons y ys)
  from Cons.prems(2) have xy: "x + g \<le> y" and tl: "spaced g (y # ys)"
    by (simp_all add: spaced_def)
  show ?case
  proof (cases "p = y")
    case True
    with xy show ?thesis by simp
  next
    case False
    with Cons.prems(3) have "p \<in> set ys" by simp
    with Cons.IH [OF Cons.prems(1) tl] have "y + g \<le> p" by simp
    with xy Cons.prems(1) show ?thesis by simp
  qed
qed

lemma count_below:
  "0 < g \<Longrightarrow> spaced g (x # xs) \<Longrightarrow>
   length (filter (\<lambda>p. p < x + int n * g) (x # xs)) \<le> n"
proof (induction n arbitrary: x xs)
  case 0
  have "\<not> q < x" if "q \<in> set xs" for q
  proof -
    have "x + g \<le> q" using _ "0.prems"(2) that by (rule spaced_lower) (use "0.prems"(1) in simp)
    with "0.prems"(1) show ?thesis by simp
  qed
  then have "filter (\<lambda>p. p < x) xs = []" by (simp add: filter_empty_conv)
  then show ?case by simp
next
  case (Suc n)
  show ?case
  proof (cases xs)
    case Nil
    then show ?thesis by simp
  next
    case (Cons y ys)
    from Suc.prems(2) have xy: "x + g \<le> y" and tl: "spaced g (y # ys)"
      by (simp_all add: Cons spaced_def)
    have "length (filter (\<lambda>p. p < x + int (Suc n) * g) (y # ys))
            \<le> length (filter (\<lambda>p. p < y + int n * g) (y # ys))"
      by (rule length_filter_mono) (use xy in \<open>simp add: algebra_simps\<close>)
    also have "\<dots> \<le> n" using Suc.prems(1) tl by (rule Suc.IH)
    finally show ?thesis by (simp add: Cons)
  qed
qed

lemma window_count:
  "0 < g \<Longrightarrow> spaced g ps \<Longrightarrow> in_window t (int n * g) ps \<le> n"
proof (induction ps)
  case Nil
  then show ?case by (simp add: in_window_def)
next
  case (Cons x xs)
  have tl: "spaced g xs" using Cons.prems(2) by (rule spaced_tl)
  show ?case
  proof (cases "t \<le> x")
    case False
    with Cons.IH [OF Cons.prems(1) tl] show ?thesis by (simp add: in_window_def)
  next
    case True
    have "in_window t (int n * g) (x # xs) \<le> length (filter (\<lambda>p. p < x + int n * g) (x # xs))"
      unfolding in_window_def by (rule length_filter_mono) (use True in simp)
    also have "\<dots> \<le> n" using Cons.prems by (rule count_below)
    finally show ?thesis .
  qed
qed

text \<open>
  C4. The client is configured for 10 requests per minute, a gap of 6 seconds. For every
  sequence of sequential calls through one client, whatever time passes between them
  and however long sleeps and round trips last: any two consecutive calls are let
  through at least 6 seconds apart (the first one at least 6 seconds after the
  \<open>lastRequest\<close> the client started with), so no window of one minute holds more than
  10 of them, the \<open>j\<close>-th is at least \<open>(j - i)\<close> gaps after the \<open>i\<close>-th, and the twelfth of
  12 calls is let through no sooner than 66 seconds after the first. A window here
  includes its start and excludes its end.
\<close>

theorem rate_limit_spacing:
  "rateLimitDuration div requestsPerMinute = 6 * Second \<and>
   length (permits env calls tc) = length calls \<and>
   spaced (6 * Second) (permits env calls tc) \<and>
   (lastRequest (snd tc) = Some l \<longrightarrow> spaced (6 * Second) (l # permits env calls tc)) \<and>
   in_window t Minute (permits env calls tc) \<le> 10 \<and>
   (i \<le> j \<and> j < length calls \<longrightarrow>
      permits env calls tc ! i + int (j - i) * (6 * Second) \<le> permits env calls tc ! j) \<and>
   (length calls = 12 \<longrightarrow>
      permits env calls tc ! 0 + 66 * Second \<le> permits env calls tc ! 11)"
proof -
  have sp: "spaced (6 * Second) (permits env calls tc)" by (rule spaced_permits)
  have pos: "0 < 6 * Second" by (simp add: Second_def)
  have "in_window t (int 10 * (6 * Second)) (permits env calls tc) \<le> 10"
    using pos sp by (rule window_count)
  then have win: "in_window t Minute (permits env calls tc) \<le> 10"
    by (simp add: Minute_def)
  have nth: "permits env calls tc ! i + int (j - i) * (6 * Second) \<le> permits env calls tc ! j"
    if "i \<le> j" "j < length calls" for i j
    using sp that by (intro spaced_nth) (simp_all add: length_permits)
  have twelve: "permits env calls tc ! 0 + 66 * Second \<le> permits env calls tc ! 11"
    if "length calls = 12"
    using nth [of 0 11] that by simp
  show ?thesis
    using sp win nth twelve by (simp add: gap_eq length_permits spaced_permits_from)
qed


lemma permits_three:
  "permits calm [(0, ''/competitions''), (1000000000, ''/competitions/PL''), (7000000000, ''/teams/64'')]
     (0, NewClient ''token'') = [0, 6000000000, 13000000000]"
  by (simp add: permits_Cons rateLimit_def doRequest_def calm_def NewClient_def zero_lag_def
        request_ok_def answer_ok_def Let_def rateLimitDuration_def requestsPerMinute_def
        Minute_def Second_def)

theorem rate_limit_spacing_witness:
  "66 * Second \<le>
   permits calm
     [(0, ''/competitions''), (0, ''/competitions''), (0, ''/competitions''), (0, ''/competitions''),
      (0, ''/competitions''), (0, ''/competitions''), (0, ''/competitions''), (0, ''/competitions''),
      (0, ''/competitions''), (0, ''/competitions''), (0, ''/competitions''), (0, ''/competitions'')]
     (0, NewClient ''token'') ! 11"
proof -
  let ?calls =
    "[(0, ''/competitions''), (0, ''/competitions''), (0, ''/competitions''), (0, ''/competitions''),
      (0, ''/competitions''), (0, ''/competitions''), (0, ''/competitions''), (0, ''/competitions''),
      (0, ''/competitions''), (0, ''/competitions''), (0, ''/competitions''), (0::nat, ''/competitions'')]"
  have len: "length ?calls = 12" by simp
  have first: "permits calm ?calls (0, NewClient ''token'') ! 0 = 0"
    by (subst permits_Cons) (simp add: rateLimit_def NewClient_def)
  note T = rate_limit_spacing [where env = calm and calls = ?calls and tc = "(0, NewClient ''token'')"
      and i = 0 and j = 11 and t = 0 and l = 0]
  from T [THEN conjunct2, THEN conjunct2, THEN conjunct2, THEN conjunct2, THEN conjunct2,
          THEN conjunct2, THEN mp, OF len]
  show ?thesis unfolding first by simp
qed

section \<open>The sync tick: what each part leaves untouched\<close>

lemma frame_refl: "frame K w w"
  by (simp add: frame_def)

lemma frame_trans: "frame K w w' \<Longrightarrow> frame K' w' w'' \<Longrightarrow> frame (K \<union> K') w w''"
proof -
  assume a: "frame K w w'" and b: "frame K' w' w''"
  from a b have "clock w \<le> clock w''" by (simp add: frame_def)
  moreover from a b have "repo_fault (repo w'') = repo_fault (repo w)" by (simp add: frame_def)
  moreover from a b have "db_faults w'' = db_faults w" by (simp add: frame_def)
  moreover from a b have "\<forall>key. key \<notin> K \<union> K' \<longrightarrow> rows_of w'' key = rows_of w key"
    by (simp add: frame_def)
  moreover have "\<exists>more. logs w'' = logs w @ more"
  proof -
    from a obtain m1 where "logs w' = logs w @ m1" by (auto simp: frame_def)
    moreover from b obtain m2 where "logs w'' = logs w' @ m2" by (auto simp: frame_def)
    ultimately have "logs w'' = logs w @ (m1 @ m2)" by simp
    then show ?thesis by blast
  qed
  moreover from a b have "dom (competitions (repo w)) \<subseteq> dom (competitions (repo w''))"
    unfolding frame_def by blast
  ultimately show ?thesis unfolding frame_def by blast
qed

lemma frame_mono: "frame K w w' \<Longrightarrow> K \<subseteq> K' \<Longrightarrow> frame K' w w'"
  unfolding frame_def by blast

lemma frame_weaken: "frame {} w w' \<Longrightarrow> frame K w w'"
  using frame_mono [of "{}" w w' K] by simp

lemma frame_slog: "frame {} w (slog lvl msg attrs w)"
  by (simp add: frame_def slog_def rows_of_def db_faults_def)

lemma frame_Sleep: "0 \<le> d \<Longrightarrow> frame {} w (Sleep env d w)"
  by (simp add: frame_def Sleep_def rows_of_def db_faults_def)

lemma rateLimit_ge: "t \<le> rateLimit env t c"
  by (simp add: rateLimit_def Let_def split: option.splits)

lemma clock_doRequest: "fst tc \<le> fst (snd (doRequest env endpoint tc))"
  using rateLimit_ge [of "fst tc" env "snd tc"]
  by (simp add: doRequest_def Let_def split: option.splits sum.splits)

lemma snd_decode: "snd (decode u r) = snd r"
  by (simp add: decode_def split: sum.splits)

lemma frame_via_client:
  "(\<And>tc. fst tc \<le> fst (snd (f tc))) \<Longrightarrow> frame {} w (snd (via_client f w))"
proof -
  assume "\<And>tc. fst tc \<le> fst (snd (f tc))"
  from this [of "(clock w, client w)"] show ?thesis
    by (simp add: frame_def via_client_def Let_def rows_of_def db_faults_def)
qed

lemma clock_GetCompetition: "fst tc \<le> fst (snd (GetCompetition env code tc))"
  by (simp add: GetCompetition_def snd_decode clock_doRequest)

lemma clock_GetCompetitions: "fst tc \<le> fst (snd (GetCompetitions env tc))"
  by (simp add: GetCompetitions_def snd_decode clock_doRequest)

lemma clock_GetMatches: "fst tc \<le> fst (snd (GetMatches env code tc))"
  by (simp add: GetMatches_def snd_decode clock_doRequest)

lemma clock_GetStandings: "fst tc \<le> fst (snd (GetStandings env code tc))"
  by (simp add: GetStandings_def snd_decode clock_doRequest)

lemma frame_repo_teams:
  "frame {} w (w\<lparr>repo := snd (SaveTeam t (repo w) team)\<rparr>)"
  by (simp add: frame_def SaveTeam_def rows_of_def db_faults_def split: option.splits)

lemma frame_repo_match:
  "frame {} w (w\<lparr>repo := snd (SaveMatch t (repo w) m)\<rparr>)"
  by (simp add: frame_def SaveMatch_def rows_of_def db_faults_def split: option.splits)

lemma frame_repo_competition:
  "frame {} w (w\<lparr>repo := snd (SaveCompetition t (repo w) x)\<rparr>)"
  by (auto simp: frame_def SaveCompetition_def rows_of_def db_faults_def split: option.splits)

lemma frame0_trans: "frame {} w w' \<Longrightarrow> frame K w' w'' \<Longrightarrow> frame K w w''"
  using frame_trans [of "{}" w w' K w''] by simp

lemma frame_trans0: "frame K w w' \<Longrightarrow> frame {} w' w'' \<Longrightarrow> frame K w w''"
  using frame_trans [of K w w' "{}" w''] by simp

lemma frame_saveMatchStep: "frame {} w (saveMatchStep w m)"
proof -
  let ?home = "SaveTeam (clock w) (repo w) (match_HomeTeam m)"
  define w1 where "w1 = (case fst ?home of
                  Some err \<Rightarrow>
                    slog LevelError ''Failed to save home team''
                      [(''id'', show_int (team_ID (match_HomeTeam m))), (''error'', message err)]
                      (w\<lparr>repo := snd ?home\<rparr>)
                | None \<Rightarrow> w\<lparr>repo := snd ?home\<rparr>)"
  let ?away = "SaveTeam (clock w1) (repo w1) (match_AwayTeam m)"
  define w2 where "w2 = (case fst ?away of
                  Some err \<Rightarrow>
                    slog LevelError ''Failed to save away team''
                      [(''id'', show_int (team_ID (match_AwayTeam m))), (''error'', message err)]
                      (w1\<lparr>repo := snd ?away\<rparr>)
                | None \<Rightarrow> w1\<lparr>repo := snd ?away\<rparr>)"
  let ?saved = "SaveMatch (clock w2) (repo w2) m"
  have f1: "frame {} w w1"
    unfolding w1_def
    by (cases "fst ?home") (simp_all add: frame_repo_teams frame0_trans [OF frame_repo_teams frame_slog])
  have f2: "frame {} w1 w2"
    unfolding w2_def
    by (cases "fst ?away") (simp_all add: frame_repo_teams frame0_trans [OF frame_repo_teams frame_slog])
  have f3: "frame {} w2 (saveMatchStep w m)"
    unfolding saveMatchStep_def Let_def w1_def [symmetric] w2_def [symmetric]
    by (cases "fst ?saved") (simp_all add: frame0_trans [OF frame_repo_match frame_slog])
  show ?thesis by (rule frame0_trans [OF f1 frame0_trans [OF f2 f3]])
qed

lemma frame_foldl_saveMatchStep: "frame {} w (foldl saveMatchStep w ms)"
proof (induction ms arbitrary: w)
  case Nil
  show ?case by (simp add: frame_refl)
next
  case (Cons m ms)
  show ?case
    using frame0_trans [OF frame_saveMatchStep Cons.IH] by simp
qed

lemma frame_SyncCompetitionMatches: "frame {} w (snd (SyncCompetitionMatches env code w))"
proof -
  let ?w1 = "slog LevelInfo ''Starting matches sync'' [(''competition'', code)] w"
  let ?f = "via_client (GetMatches env code) ?w1"
  have a: "frame {} w (snd ?f)"
    by (rule frame0_trans [OF frame_slog frame_via_client]) (rule clock_GetMatches)
  show ?thesis
  proof (cases "fst ?f")
    case (Inl err)
    with a show ?thesis by (simp add: SyncCompetitionMatches_def Let_def)
  next
    case (Inr ms)
    have "frame {} (snd ?f) (slog LevelInfo ''Completed matches sync''
                [(''competition'', code), (''count'', show_nat (length ms))]
                (foldl saveMatchStep (snd ?f) ms))"
      by (rule frame0_trans [OF frame_foldl_saveMatchStep frame_slog])
    with a have "frame {} w (slog LevelInfo ''Completed matches sync''
                [(''competition'', code), (''count'', show_nat (length ms))]
                (foldl saveMatchStep (snd ?f) ms))"
      by (rule frame0_trans)
    with Inr show ?thesis
      by (simp add: SyncCompetitionMatches_def Let_def)
  qed
qed


lemma SetMetadata_frame:
  "db_fault (db (snd (SetMetadata ttl now cm t k h))) = db_fault (db cm)"
  "key \<noteq> (t, k) \<Longrightarrow>
     cache_metadata (db (snd (SetMetadata ttl now cm t k h))) key = cache_metadata (db cm) key"
  by (simp_all add: SetMetadata_def Exec_upsert_def Let_def split: option.splits)

lemma frame_SetMetadata:
  "cacheManager w = Some cm \<Longrightarrow>
   frame {(t, k)} w (w\<lparr>cacheManager := Some (snd (SetMetadata ttl now cm t k h))\<rparr>)"
  by (simp add: frame_def rows_of_def db_faults_def SetMetadata_frame)

lemma frame_markSynced: "frame {(t, c)} w (markSynced env t c w)"
  by (cases "cacheManager w") (simp_all add: markSynced_def frame_refl frame_SetMetadata)

lemma frame_logFailure: "frame K w (snd r) \<Longrightarrow> frame K w (logFailure msg code r)"
  by (cases "fst r") (simp_all add: logFailure_def frame_trans0 [OF _ frame_slog])

lemma frame_syncCompetition: "frame {(''competition'', c)} w (snd (syncCompetition env c w))"
proof -
  let ?f = "via_client (GetCompetition env c) w"
  have a: "frame {} w (snd ?f)"
    by (rule frame_via_client) (rule clock_GetCompetition)
  show ?thesis
  proof (cases "fst ?f")
    case (Inl err)
    with a show ?thesis
      by (simp add: syncCompetition_def Let_def frame_weaken)
  next
    case (Inr x)
    let ?saved = "SaveCompetition (clock (snd ?f)) (repo (snd ?f)) x"
    let ?w2 = "(snd ?f)\<lparr>repo := snd ?saved\<rparr>"
    have b: "frame {} w ?w2"
      by (rule frame0_trans [OF a frame_repo_competition])
    show ?thesis
    proof (cases "fst ?saved")
      case (Some err)
      with Inr b show ?thesis
        by (simp add: syncCompetition_def Let_def frame_weaken)
    next
      case None
      show ?thesis
      proof (cases "cacheManager ?w2")
        case None
        with \<open>fst ?saved = None\<close> Inr b show ?thesis
          by (simp add: syncCompetition_def Let_def frame_weaken)
      next
        case (Some cm)
        have "frame {(''competition'', c)} ?w2
                (?w2\<lparr>cacheManager := Some (snd (SetMetadata (CacheTTL env) (clock ?w2) cm
                      ''competition'' c (hash_competition env x)))\<rparr>)"
          using Some by (rule frame_SetMetadata)
        with b have "frame {(''competition'', c)} w
                (?w2\<lparr>cacheManager := Some (snd (SetMetadata (CacheTTL env) (clock ?w2) cm
                      ''competition'' c (hash_competition env x)))\<rparr>)"
          by (rule frame0_trans)
        with \<open>fst ?saved = None\<close> Inr Some show ?thesis
          by (simp add: syncCompetition_def Let_def)
      qed
    qed
  qed
qed

lemma frame_syncStandings: "frame {(''standings'', c)} w (snd (syncStandings env c w))"
proof -
  let ?f = "via_client (GetStandings env c) w"
  have a: "frame {} w (snd ?f)"
    by (rule frame_via_client) (rule clock_GetStandings)
  show ?thesis
  proof (cases "fst ?f")
    case (Inl err)
    with a show ?thesis
      by (simp add: syncStandings_def Let_def frame_weaken)
  next
    case (Inr x)
    show ?thesis
    proof (cases "cacheManager (snd ?f)")
      case None
      with Inr a show ?thesis
        by (simp add: syncStandings_def Let_def frame_weaken)
    next
      case (Some cm)
      have "frame {(''standings'', c)} (snd ?f)
              ((snd ?f)\<lparr>cacheManager := Some (snd (SetMetadata (CacheTTL env) (clock (snd ?f)) cm
                    ''standings'' c (hash_standing env x)))\<rparr>)"
        using Some by (rule frame_SetMetadata)
      with a have "frame {(''standings'', c)} w
              ((snd ?f)\<lparr>cacheManager := Some (snd (SetMetadata (CacheTTL env) (clock (snd ?f)) cm
                    ''standings'' c (hash_standing env x)))\<rparr>)"
        by (rule frame0_trans)
      with Inr Some show ?thesis
        by (simp add: syncStandings_def Let_def)
    qed
  qed
qed

lemma two_seconds: "0 \<le> 2 * Second"
  by (simp add: Second_def)

lemma frame_stepCompetition:
  "frame {(''competition'', comp_Code x)} w (stepCompetition env x w)"
proof (cases "needsRefresh w ''competition'' (comp_Code x)")
  case False
  then show ?thesis by (simp add: stepCompetition_def frame_refl)
next
  case True
  let ?w1 = "slog LevelInfo ''Syncing competition''
                    [(''code'', comp_Code x), (''name'', comp_Name x)] w"
  have "frame {(''competition'', comp_Code x)} w (snd (syncCompetition env (comp_Code x) ?w1))"
    by (rule frame0_trans [OF frame_slog frame_syncCompetition])
  then have "frame {(''competition'', comp_Code x)} w
      (logFailure ''Failed to sync competition'' (comp_Code x) (syncCompetition env (comp_Code x) ?w1))"
    by (rule frame_logFailure)
  then have "frame {(''competition'', comp_Code x)} w (Sleep env (2 * Second)
      (logFailure ''Failed to sync competition'' (comp_Code x) (syncCompetition env (comp_Code x) ?w1)))"
    by (rule frame_trans0) (rule frame_Sleep [OF two_seconds])
  with True show ?thesis by (simp add: stepCompetition_def)
qed

lemma frame_stepMatches:
  "frame {(''matches'', comp_Code x)} w (stepMatches env x w)"
proof (cases "needsRefresh w ''matches'' (comp_Code x)")
  case False
  then show ?thesis by (simp add: stepMatches_def frame_refl)
next
  case True
  let ?w1 = "slog LevelInfo ''Syncing matches'' [(''code'', comp_Code x)] w"
  let ?r = "SyncCompetitionMatches env (comp_Code x) ?w1"
  have "frame {} w (snd ?r)"
    by (rule frame0_trans [OF frame_slog frame_SyncCompetitionMatches])
  then have "frame {} w (logFailure ''Failed to sync matches'' (comp_Code x) ?r)"
    by (rule frame_logFailure)
  then have "frame {(''matches'', comp_Code x)} w
      (markSynced env ''matches'' (comp_Code x) (logFailure ''Failed to sync matches'' (comp_Code x) ?r))"
    by (rule frame0_trans) (rule frame_markSynced)
  then have "frame {(''matches'', comp_Code x)} w (Sleep env (2 * Second)
      (markSynced env ''matches'' (comp_Code x) (logFailure ''Failed to sync matches'' (comp_Code x) ?r)))"
    by (rule frame_trans0) (rule frame_Sleep [OF two_seconds])
  with True show ?thesis by (simp add: stepMatches_def)
qed

lemma frame_stepStandings:
  "frame {(''standings'', comp_Code x)} w (stepStandings env x w)"
proof (cases "needsRefresh w ''standings'' (comp_Code x)")
  case False
  then show ?thesis by (simp add: stepStandings_def frame_refl)
next
  case True
  let ?w1 = "slog LevelInfo ''Syncing standings'' [(''code'', comp_Code x)] w"
  let ?r = "syncStandings env (comp_Code x) ?w1"
  have "frame {(''standings'', comp_Code x)} w (snd ?r)"
    by (rule frame0_trans [OF frame_slog frame_syncStandings])
  then have "frame {(''standings'', comp_Code x)} w (logFailure ''Failed to sync standings'' (comp_Code x) ?r)"
    by (rule frame_logFailure)
  then have "frame ({(''standings'', comp_Code x)} \<union> {(''standings'', comp_Code x)}) w
      (markSynced env ''standings'' (comp_Code x) (logFailure ''Failed to sync standings'' (comp_Code x) ?r))"
    by (rule frame_trans) (rule frame_markSynced)
  then have "frame {(''standings'', comp_Code x)} w
      (markSynced env ''standings'' (comp_Code x) (logFailure ''Failed to sync standings'' (comp_Code x) ?r))"
    by simp
  then have "frame {(''standings'', comp_Code x)} w (Sleep env (2 * Second)
      (markSynced env ''standings'' (comp_Code x) (logFailure ''Failed to sync standings'' (comp_Code x) ?r)))"
    by (rule frame_trans0) (rule frame_Sleep [OF two_seconds])
  with True show ?thesis by (simp add: stepStandings_def)
qed

lemma frame_processCompetition:
  "frame (keys_of (comp_Code x)) w (processCompetition env w x)"
proof -
  have "frame ({(''competition'', comp_Code x)} \<union> {(''matches'', comp_Code x)}) w
          (stepMatches env x (stepCompetition env x w))"
    by (rule frame_trans [OF frame_stepCompetition frame_stepMatches])
  then have "frame (({(''competition'', comp_Code x)} \<union> {(''matches'', comp_Code x)})
                    \<union> {(''standings'', comp_Code x)}) w (processCompetition env w x)"
    unfolding processCompetition_def by (rule frame_trans) (rule frame_stepStandings)
  then show ?thesis
    by (rule frame_mono) (auto simp: keys_of_def)
qed

lemma frame_foldl_processCompetition:
  "frame (\<Union>x \<in> set xs. keys_of (comp_Code x)) w (foldl (processCompetition env) w xs)"
proof (induction xs arbitrary: w)
  case Nil
  show ?case by (simp add: frame_refl)
next
  case (Cons x xs)
  have "frame (keys_of (comp_Code x) \<union> (\<Union>y \<in> set xs. keys_of (comp_Code y))) w
          (foldl (processCompetition env) (processCompetition env w x) xs)"
    by (rule frame_trans [OF frame_processCompetition Cons.IH])
  then show ?case by simp
qed

section \<open>The sync tick: one competition succeeds or fails\<close>

lemma NeedsRefresh_stale:
  "(case cache_metadata (db cm) (t, k) of None \<Rightarrow> True | Some row \<Rightarrow> row_expires_at row < now)
   \<Longrightarrow> NeedsRefresh now cm t k"
  by (auto simp: NeedsRefresh_def GetMetadata_def QueryRow_Scan_def split: option.splits sum.splits)

lemma needsRefresh_stale:
  assumes "stale w t c" "frame K w w'" "(t, c) \<notin> K"
  shows "needsRefresh w' t c"
proof (cases "cacheManager w'")
  case None
  then show ?thesis by (simp add: needsRefresh_def)
next
  case (Some cm')
  from assms(2,3) have rows: "rows_of w' (t, c) = rows_of w (t, c)" and clk: "clock w \<le> clock w'"
    by (simp_all add: frame_def)
  have "case cache_metadata (db cm') (t, c) of None \<Rightarrow> True
        | Some row \<Rightarrow> row_expires_at row < clock w'"
    using assms(1) rows clk Some
    by (auto simp: stale_def rows_of_def split: option.splits)
  then show ?thesis using Some by (simp add: needsRefresh_def NeedsRefresh_stale)
qed

lemma via_client_simps:
  "fst (via_client f w) = fst (f (clock w, client w))"
  "repo (snd (via_client f w)) = repo w"
  "cacheManager (snd (via_client f w)) = cacheManager w"
  "logs (snd (via_client f w)) = logs w"
  "clock (snd (via_client f w)) = fst (snd (f (clock w, client w)))"
  by (simp_all add: via_client_def Let_def)

lemma slog_simps:
  "repo (slog l m a w) = repo w"
  "cacheManager (slog l m a w) = cacheManager w"
  "clock (slog l m a w) = clock w"
  "client (slog l m a w) = client w"
  "logs (slog l m a w) = logs w @ [(l, m, a)]"
  "rows_of (slog l m a w) = rows_of w"
  by (simp_all add: slog_def rows_of_def)

lemma Sleep_simps:
  "repo (Sleep env d w) = repo w"
  "cacheManager (Sleep env d w) = cacheManager w"
  "logs (Sleep env d w) = logs w"
  "rows_of (Sleep env d w) = rows_of w"
  by (simp_all add: Sleep_def rows_of_def)

lemma syncCompetition_success:
  assumes cm: "cacheManager w = Some cm"
    and fetch: "\<And>tc. fst (GetCompetition env c tc) = Inr x"
    and save: "\<And>t. repo_fault (repo w) t (InsertCompetition x) = None"
    and upsert: "\<And>t e h. db_fault (db cm) t (UpsertMetadata ''competition'' c t e h) = None"
  shows "fst (syncCompetition env c w) = None \<and>
    (\<exists>row. rows_of (snd (syncCompetition env c w)) (''competition'', c) = Some row \<and>
       clock w \<le> row_cached_at row \<and>
       row_expires_at row = row_cached_at row + CacheTTL env \<and>
       row_data_hash row = Some (hash_competition env x) \<and>
       competitions (repo (snd (syncCompetition env c w))) (comp_ID x) = Some (x, row_cached_at row))"
proof -
  let ?f = "via_client (GetCompetition env c) w"
  have clk: "clock w \<le> clock (snd ?f)"
    using clock_GetCompetition [of "(clock w, client w)" env c] by (simp add: via_client_simps)
  show ?thesis
    using clk
    by (cases "cache_metadata (db cm) (''competition'', c)")
       (simp_all add: syncCompetition_def Let_def via_client_simps fetch save cm upsert
         SaveCompetition_def SetMetadata_def Exec_upsert_def rows_of_def)
qed

lemma stepCompetition_success:
  assumes need: "needsRefresh w ''competition'' c" and code: "comp_Code x0 = c"
    and cm: "cacheManager w = Some cm"
    and fetch: "\<And>tc. fst (GetCompetition env c tc) = Inr x"
    and save: "\<And>t. repo_fault (repo w) t (InsertCompetition x) = None"
    and upsert: "\<And>t e h. db_fault (db cm) t (UpsertMetadata ''competition'' c t e h) = None"
  shows "\<exists>row. rows_of (stepCompetition env x0 w) (''competition'', c) = Some row \<and>
       clock w \<le> row_cached_at row \<and>
       row_expires_at row = row_cached_at row + CacheTTL env \<and>
       row_data_hash row = Some (hash_competition env x) \<and>
       competitions (repo (stepCompetition env x0 w)) (comp_ID x) = Some (x, row_cached_at row)"
proof -
  let ?w1 = "slog LevelInfo ''Syncing competition'' [(''code'', c), (''name'', comp_Name x0)] w"
  have "fst (syncCompetition env c ?w1) = None \<and>
    (\<exists>row. rows_of (snd (syncCompetition env c ?w1)) (''competition'', c) = Some row \<and>
       clock ?w1 \<le> row_cached_at row \<and>
       row_expires_at row = row_cached_at row + CacheTTL env \<and>
       row_data_hash row = Some (hash_competition env x) \<and>
       competitions (repo (snd (syncCompetition env c ?w1))) (comp_ID x) = Some (x, row_cached_at row))"
    by (rule syncCompetition_success [where cm = cm])
       (simp_all add: slog_simps cm fetch save upsert)
  then show ?thesis
    using need code by (simp add: stepCompetition_def logFailure_def Sleep_simps slog_simps)
qed

lemma syncCompetition_failure:
  assumes "\<And>tc. case fst (GetCompetition env c tc) of Inl e \<Rightarrow> True
                 | Inr y \<Rightarrow> \<forall>t. repo_fault (repo w) t (InsertCompetition y) \<noteq> None"
  shows "fst (syncCompetition env c w) \<noteq> None \<and>
         rows_of (snd (syncCompetition env c w)) = rows_of w \<and>
         logs (snd (syncCompetition env c w)) = logs w"
proof (cases "fst (GetCompetition env c (clock w, client w))")
  case (Inl e)
  then show ?thesis
    by (simp add: syncCompetition_def Let_def via_client_simps)
       (simp add: via_client_def rows_of_def Let_def)
next
  case (Inr y)
  with assms [of "(clock w, client w)"]
  have "\<forall>t. repo_fault (repo w) t (InsertCompetition y) \<noteq> None" by simp
  then obtain err where
    "repo_fault (repo w) (clock (snd (via_client (GetCompetition env c) w))) (InsertCompetition y) = Some err"
    by (metis option.exhaust)
  with Inr show ?thesis
    by (simp add: syncCompetition_def Let_def via_client_simps SaveCompetition_def)
       (simp add: via_client_def rows_of_def Let_def)
qed

lemma stepCompetition_failure:
  assumes need: "needsRefresh w ''competition'' c" and code: "comp_Code x0 = c"
    and fail: "\<And>tc. case fst (GetCompetition env c tc) of Inl e \<Rightarrow> True
                 | Inr y \<Rightarrow> \<forall>t. repo_fault (repo w) t (InsertCompetition y) \<noteq> None"
  shows "rows_of (stepCompetition env x0 w) = rows_of w \<and>
         (\<exists>e. (LevelError, ''Failed to sync competition'', [(''code'', c), (''error'', e)])
                \<in> set (logs (stepCompetition env x0 w)))"
proof -
  let ?w1 = "slog LevelInfo ''Syncing competition'' [(''code'', c), (''name'', comp_Name x0)] w"
  have "fst (syncCompetition env c ?w1) \<noteq> None \<and>
         rows_of (snd (syncCompetition env c ?w1)) = rows_of ?w1 \<and>
         logs (snd (syncCompetition env c ?w1)) = logs ?w1"
    by (rule syncCompetition_failure) (unfold slog_simps, rule fail)
  then show ?thesis
    using need code
    by (auto simp: stepCompetition_def logFailure_def Sleep_simps slog_simps)
qed

lemma split_codes:
  assumes "distinct (map comp_Code comps)" "c \<in> set (map comp_Code comps)"
  obtains pre x0 post where "comps = pre @ x0 # post" "comp_Code x0 = c"
    "c \<notin> comp_Code ` set pre" "c \<notin> comp_Code ` set post"
proof -
  from assms(2) obtain x0 where "x0 \<in> set comps" "comp_Code x0 = c" by auto
  then obtain pre post where sp: "comps = pre @ x0 # post" by (auto dest: split_list)
  with assms(1) \<open>comp_Code x0 = c\<close> have "c \<notin> comp_Code ` set pre" "c \<notin> comp_Code ` set post"
    by auto
  with sp \<open>comp_Code x0 = c\<close> show thesis by (rule that)
qed

lemma key_notin: "c \<notin> comp_Code ` set xs \<Longrightarrow> (t, c) \<notin> (\<Union>x \<in> set xs. keys_of (comp_Code x))"
  by (auto simp: keys_of_def)

lemma stale_frame:
  assumes "stale w t c" "frame K w w'" "(t, c) \<notin> K"
  shows "stale w' t c"
proof -
  from assms(2,3) have "rows_of w' (t, c) = rows_of w (t, c)" "clock w \<le> clock w'"
    by (simp_all add: frame_def)
  with assms(1) show ?thesis by (auto simp: stale_def split: option.splits)
qed

lemma frame_cacheManager:
  assumes "frame K w w'" "cacheManager w = Some cm"
  obtains cm' where "cacheManager w' = Some cm'" "db_fault (db cm') = db_fault (db cm)"
proof -
  from assms have "db_faults w' = Some (db_fault (db cm))"
    by (simp add: frame_def db_faults_def)
  then obtain cm' where "cacheManager w' = Some cm'" "db_fault (db cm') = db_fault (db cm)"
    by (auto simp: db_faults_def split: option.splits)
  then show thesis by (rule that)
qed

lemma frame_getAllCompetitions: "frame {} w (snd (getAllCompetitions env w))"
proof (cases "length (competitionCodes w) > 0")
  case True
  then show ?thesis by (simp add: getAllCompetitions_def frame_refl)
next
  case False
  have "frame {} w (snd (via_client (GetCompetitions env)
          (slog LevelInfo ''Fetching all competitions from API'' [] w)))"
    by (rule frame0_trans [OF frame_slog frame_via_client]) (rule clock_GetCompetitions)
  with False show ?thesis by (simp add: getAllCompetitions_def Service_GetAllCompetitions_def)
qed

lemma loop_success:
  assumes sp: "comps = pre @ x0 # post" "comp_Code x0 = c"
      "c \<notin> comp_Code ` set pre" "c \<notin> comp_Code ` set post"
    and cm: "cacheManager w = Some cm"
    and st: "stale w ''competition'' c"
    and fetch: "\<And>tc. fst (GetCompetition env c tc) = Inr x"
    and save: "\<And>t. repo_fault (repo w) t (InsertCompetition x) = None"
    and upsert: "\<And>t e h. db_fault (db cm) t (UpsertMetadata ''competition'' c t e h) = None"
  shows "(\<exists>row. rows_of (foldl (processCompetition env) w comps) (''competition'', c) = Some row \<and>
       clock w \<le> row_cached_at row \<and>
       row_expires_at row = row_cached_at row + CacheTTL env \<and>
       row_data_hash row = Some (hash_competition env x)) \<and>
     comp_ID x \<in> dom (competitions (repo (foldl (processCompetition env) w comps)))"
proof -
  let ?P = "processCompetition env"
  let ?w1 = "foldl ?P w pre"
  let ?wa = "stepCompetition env x0 ?w1"
  let ?wc = "?P ?w1 x0"
  let ?w3 = "foldl ?P ?wc post"
  have w3: "foldl ?P w comps = ?w3" by (simp add: sp(1))
  have f1: "frame (\<Union>y \<in> set pre. keys_of (comp_Code y)) w ?w1"
    by (rule frame_foldl_processCompetition)
  have k1: "(''competition'', c) \<notin> (\<Union>y \<in> set pre. keys_of (comp_Code y))"
    using sp(3) by (rule key_notin)
  have need: "needsRefresh ?w1 ''competition'' c"
    using st f1 k1 by (rule needsRefresh_stale)
  from f1 cm obtain cm1 where cm1: "cacheManager ?w1 = Some cm1"
    and df: "db_fault (db cm1) = db_fault (db cm)"
    by (rule frame_cacheManager)
  from f1 have rf: "repo_fault (repo ?w1) = repo_fault (repo w)" and clk: "clock w \<le> clock ?w1"
    by (simp_all add: frame_def)
  have "\<exists>row. rows_of ?wa (''competition'', c) = Some row \<and>
       clock ?w1 \<le> row_cached_at row \<and>
       row_expires_at row = row_cached_at row + CacheTTL env \<and>
       row_data_hash row = Some (hash_competition env x) \<and>
       competitions (repo ?wa) (comp_ID x) = Some (x, row_cached_at row)"
    using need sp(2) cm1
    by (rule stepCompetition_success) (simp_all add: fetch save upsert rf df)
  then obtain row where row: "rows_of ?wa (''competition'', c) = Some row"
      "clock ?w1 \<le> row_cached_at row"
      "row_expires_at row = row_cached_at row + CacheTTL env"
      "row_data_hash row = Some (hash_competition env x)"
      "competitions (repo ?wa) (comp_ID x) = Some (x, row_cached_at row)"
    by blast
  have fa: "frame ({(''matches'', comp_Code x0)} \<union> {(''standings'', comp_Code x0)}) ?wa ?wc"
    unfolding processCompetition_def
    by (rule frame_trans [OF frame_stepMatches frame_stepStandings])
  have f3: "frame (\<Union>y \<in> set post. keys_of (comp_Code y)) ?wc ?w3"
    by (rule frame_foldl_processCompetition)
  have k3: "(''competition'', c) \<notin> (\<Union>y \<in> set post. keys_of (comp_Code y))"
    using sp(4) by (rule key_notin)
  have "rows_of ?wc (''competition'', c) = rows_of ?wa (''competition'', c)"
    using fa by (simp add: frame_def)
  moreover have "rows_of ?w3 (''competition'', c) = rows_of ?wc (''competition'', c)"
    using f3 k3 by (simp add: frame_def)
  ultimately have r3: "rows_of ?w3 (''competition'', c) = Some row" using row(1) by simp
  have "dom (competitions (repo ?wa)) \<subseteq> dom (competitions (repo ?wc))"
    using fa by (simp add: frame_def)
  moreover have "dom (competitions (repo ?wc)) \<subseteq> dom (competitions (repo ?w3))"
    using f3 by (simp add: frame_def)
  moreover have "comp_ID x \<in> dom (competitions (repo ?wa))" using row(5) by blast
  ultimately have d3: "comp_ID x \<in> dom (competitions (repo ?w3))" by blast
  from r3 row(2,3,4) clk d3 show ?thesis
    unfolding w3 by auto
qed

lemma loop_failure:
  assumes sp: "comps = pre @ x0 # post" "comp_Code x0 = c"
      "c \<notin> comp_Code ` set pre" "c \<notin> comp_Code ` set post"
    and st: "stale w ''competition'' c"
    and fail: "\<And>tc. case fst (GetCompetition env c tc) of Inl e \<Rightarrow> True
                 | Inr y \<Rightarrow> \<forall>t. repo_fault (repo w) t (InsertCompetition y) \<noteq> None"
  shows "rows_of (foldl (processCompetition env) w comps) (''competition'', c)
           = rows_of w (''competition'', c) \<and>
     (\<exists>e. (LevelError, ''Failed to sync competition'', [(''code'', c), (''error'', e)])
            \<in> set (logs (foldl (processCompetition env) w comps)))"
proof -
  let ?P = "processCompetition env"
  let ?w1 = "foldl ?P w pre"
  let ?wa = "stepCompetition env x0 ?w1"
  let ?wc = "?P ?w1 x0"
  let ?w3 = "foldl ?P ?wc post"
  have w3: "foldl ?P w comps = ?w3" by (simp add: sp(1))
  have f1: "frame (\<Union>y \<in> set pre. keys_of (comp_Code y)) w ?w1"
    by (rule frame_foldl_processCompetition)
  have k1: "(''competition'', c) \<notin> (\<Union>y \<in> set pre. keys_of (comp_Code y))"
    using sp(3) by (rule key_notin)
  have need: "needsRefresh ?w1 ''competition'' c"
    using st f1 k1 by (rule needsRefresh_stale)
  from f1 have rf: "repo_fault (repo ?w1) = repo_fault (repo w)"
    by (simp add: frame_def)
  have "rows_of ?wa = rows_of ?w1 \<and>
         (\<exists>e. (LevelError, ''Failed to sync competition'', [(''code'', c), (''error'', e)])
                \<in> set (logs ?wa))"
    using need sp(2) by (rule stepCompetition_failure) (unfold rf, rule fail)
  then obtain e where ra: "rows_of ?wa = rows_of ?w1"
    and la: "(LevelError, ''Failed to sync competition'', [(''code'', c), (''error'', e)]) \<in> set (logs ?wa)"
    by blast
  have fa: "frame ({(''matches'', comp_Code x0)} \<union> {(''standings'', comp_Code x0)}) ?wa ?wc"
    unfolding processCompetition_def
    by (rule frame_trans [OF frame_stepMatches frame_stepStandings])
  have f3: "frame (\<Union>y \<in> set post. keys_of (comp_Code y)) ?wc ?w3"
    by (rule frame_foldl_processCompetition)
  have k3: "(''competition'', c) \<notin> (\<Union>y \<in> set post. keys_of (comp_Code y))"
    using sp(4) by (rule key_notin)
  have "rows_of ?w1 (''competition'', c) = rows_of w (''competition'', c)"
    using f1 k1 by (simp add: frame_def)
  moreover have "rows_of ?wc (''competition'', c) = rows_of ?wa (''competition'', c)"
    using fa by (simp add: frame_def)
  moreover have "rows_of ?w3 (''competition'', c) = rows_of ?wc (''competition'', c)"
    using f3 k3 by (simp add: frame_def)
  ultimately have r3: "rows_of ?w3 (''competition'', c) = rows_of w (''competition'', c)"
    using ra by simp
  from fa obtain m1 where "logs ?wc = logs ?wa @ m1" by (auto simp: frame_def)
  moreover from f3 obtain m2 where "logs ?w3 = logs ?wc @ m2" by (auto simp: frame_def)
  ultimately have "(LevelError, ''Failed to sync competition'', [(''code'', c), (''error'', e)])
      \<in> set (logs ?w3)"
    using la by simp
  with r3 show ?thesis unfolding w3 by blast
qed

section \<open>The sync tick: failures stay with their competition\<close>

text \<open>
  C7. Take a tick of a scheduler with a cache manager, and the competitions it processes,
  of distinct codes, in any number and order (so also \<open>A\<close>, \<open>B\<close>, \<open>C\<close>). For a competition
  \<open>a\<close> among them whose freshness record is missing or expired at the start, whose fetch
  and decoding succeed whenever tried, and whose rows the databases accept, the tick
  ends with the fetched competition stored and the record of \<open>a\<close> rewritten within the
  tick, with \<open>expires_at = cached_at + CacheTTL\<close> and the fingerprint of the fetched
  payload: whatever happens to the other competitions. For a competition \<open>b\<close> among them,
  stale at the start, whose fetch fails whenever tried or whose fetched payload the
  store refuses, the failure is logged at error level and the record of \<open>b\<close> is left as
  it was; the tick goes on to its end.
\<close>

theorem runSync_isolates_failures:
  assumes comps: "fst (getAllCompetitions env (slog LevelInfo ''Running scheduled sync'' [] w)) = Inr comps"
    and dist: "distinct (map comp_Code comps)"
    and cm: "cacheManager w = Some cm"
  shows
    "(a \<in> set (map comp_Code comps) \<and> stale w ''competition'' a \<and>
      (\<forall>tc. fst (GetCompetition env a tc) = Inr x) \<and>
      (\<forall>t. repo_fault (repo w) t (InsertCompetition x) = None) \<and>
      (\<forall>t e h. db_fault (db cm) t (UpsertMetadata ''competition'' a t e h) = None) \<longrightarrow>
        (\<exists>row. rows_of (runSync env w) (''competition'', a) = Some row \<and>
           clock w \<le> row_cached_at row \<and>
           row_expires_at row = row_cached_at row + CacheTTL env \<and>
           row_data_hash row = Some (hash_competition env x)) \<and>
        comp_ID x \<in> dom (competitions (repo (runSync env w)))) \<and>
     (b \<in> set (map comp_Code comps) \<and> stale w ''competition'' b \<and>
      (\<forall>tc. case fst (GetCompetition env b tc) of
               Inl e \<Rightarrow> True
             | Inr y \<Rightarrow> \<forall>t. repo_fault (repo w) t (InsertCompetition y) \<noteq> None) \<longrightarrow>
        rows_of (runSync env w) (''competition'', b) = rows_of w (''competition'', b) \<and>
        (\<exists>e. (LevelError, ''Failed to sync competition'', [(''code'', b), (''error'', e)])
               \<in> set (logs (runSync env w))))"
proof -
  let ?r = "getAllCompetitions env (slog LevelInfo ''Running scheduled sync'' [] w)"
  let ?ws = "slog LevelInfo ''Processing competitions'' [(''count'', show_nat (length comps))] (snd ?r)"
  let ?wl = "foldl (processCompetition env) ?ws comps"
  have run: "runSync env w = slog LevelInfo ''Completed scheduled sync'' [] ?wl"
    using comps by (simp add: runSync_def Let_def)
  have fs: "frame {} w ?ws"
    by (rule frame0_trans [OF frame_slog frame0_trans [OF frame_getAllCompetitions frame_slog]])
  from fs cm obtain cms where cms: "cacheManager ?ws = Some cms"
    and df: "db_fault (db cms) = db_fault (db cm)"
    by (rule frame_cacheManager)
  from fs have rf: "repo_fault (repo ?ws) = repo_fault (repo w)" and clk: "clock w \<le> clock ?ws"
    by (simp_all add: frame_def)
  have rows: "rows_of ?ws k = rows_of w k" for k
    using fs unfolding frame_def by blast
  show ?thesis
  proof (intro conjI impI)
    assume h: "a \<in> set (map comp_Code comps) \<and> stale w ''competition'' a \<and>
      (\<forall>tc. fst (GetCompetition env a tc) = Inr x) \<and>
      (\<forall>t. repo_fault (repo w) t (InsertCompetition x) = None) \<and>
      (\<forall>t e h. db_fault (db cm) t (UpsertMetadata ''competition'' a t e h) = None)"
    from h have "a \<in> set (map comp_Code comps)" by blast
    with dist obtain pre x0 post where sp: "comps = pre @ x0 # post" "comp_Code x0 = a"
      "a \<notin> comp_Code ` set pre" "a \<notin> comp_Code ` set post"
      by (rule split_codes)
    have st: "stale ?ws ''competition'' a"
      by (rule stale_frame [OF _ fs]) (use h in simp_all)
    have res: "(\<exists>row. rows_of ?wl (''competition'', a) = Some row \<and>
       clock ?ws \<le> row_cached_at row \<and>
       row_expires_at row = row_cached_at row + CacheTTL env \<and>
       row_data_hash row = Some (hash_competition env x)) \<and>
     comp_ID x \<in> dom (competitions (repo ?wl))"
    proof (rule loop_success [where w = ?ws and cm = cms and x = x, OF sp cms st])
      show "fst (GetCompetition env a tc) = Inr x" for tc using h by blast
      show "repo_fault (repo ?ws) t (InsertCompetition x) = None" for t
        unfolding rf using h by blast
      show "db_fault (db cms) t (UpsertMetadata ''competition'' a t e h) = None" for t e h
        unfolding df using \<open>a \<in> set (map comp_Code comps) \<and> _\<close> by blast
    qed
    show "\<exists>row. rows_of (runSync env w) (''competition'', a) = Some row \<and>
           clock w \<le> row_cached_at row \<and>
           row_expires_at row = row_cached_at row + CacheTTL env \<and>
           row_data_hash row = Some (hash_competition env x)"
    proof -
      from res obtain row where "rows_of ?wl (''competition'', a) = Some row"
        "clock ?ws \<le> row_cached_at row"
        "row_expires_at row = row_cached_at row + CacheTTL env"
        "row_data_hash row = Some (hash_competition env x)"
        by blast
      with clk have "rows_of (runSync env w) (''competition'', a) = Some row \<and>
           clock w \<le> row_cached_at row \<and>
           row_expires_at row = row_cached_at row + CacheTTL env \<and>
           row_data_hash row = Some (hash_competition env x)"
        unfolding run slog_simps by simp
      then show ?thesis ..
    qed
    from res show "comp_ID x \<in> dom (competitions (repo (runSync env w)))"
      unfolding run slog_simps by blast
  next
    assume h: "b \<in> set (map comp_Code comps) \<and> stale w ''competition'' b \<and>
      (\<forall>tc. case fst (GetCompetition env b tc) of
               Inl e \<Rightarrow> True
             | Inr y \<Rightarrow> \<forall>t. repo_fault (repo w) t (InsertCompetition y) \<noteq> None)"
    from h have "b \<in> set (map comp_Code comps)" by blast
    with dist obtain pre x0 post where sp: "comps = pre @ x0 # post" "comp_Code x0 = b"
      "b \<notin> comp_Code ` set pre" "b \<notin> comp_Code ` set post"
      by (rule split_codes)
    have st: "stale ?ws ''competition'' b"
      by (rule stale_frame [OF _ fs]) (use h in simp_all)
    have fail: "case fst (GetCompetition env b tc) of
               Inl e \<Rightarrow> True
             | Inr y \<Rightarrow> \<forall>t. repo_fault (repo ?ws) t (InsertCompetition y) \<noteq> None" for tc
      unfolding rf using h by blast
    have res: "rows_of ?wl (''competition'', b) = rows_of ?ws (''competition'', b) \<and>
     (\<exists>e. (LevelError, ''Failed to sync competition'', [(''code'', b), (''error'', e)])
            \<in> set (logs ?wl))"
      by (rule loop_failure [where w = ?ws, OF sp st fail])
    from res have "rows_of ?wl (''competition'', b) = rows_of ?ws (''competition'', b)" by blast
    also have "\<dots> = rows_of w (''competition'', b)" by (rule rows)
    finally show "rows_of (runSync env w) (''competition'', b) = rows_of w (''competition'', b)"
      unfolding run slog_simps .
    from res show "\<exists>e. (LevelError, ''Failed to sync competition'', [(''code'', b), (''error'', e)])
               \<in> set (logs (runSync env w))"
      unfolding run slog_simps by auto
  qed
qed


lemma flaky_fetch_ok:
  "code \<noteq> ''XX'' \<Longrightarrow>
   fst (GetCompetition flaky code tc) =
     Inr \<lparr>comp_ID = 0, comp_Name = [], comp_Code = [], comp_Type = [], comp_Emblem = []\<rparr>"
  by (simp add: GetCompetition_def decode_def doRequest_def flaky_def calm_def refuse_XX_def
        answer_ok_def request_ok_def decode_competition_def Let_def)

lemma flaky_fetch_XX:
  "fst (GetCompetition flaky ''XX'' tc) =
     Inl (Error ''failed to perform request: connection refused'')"
  by (simp add: GetCompetition_def decode_def doRequest_def flaky_def calm_def refuse_XX_def
        request_ok_def Let_def wrapf_def)

theorem runSync_isolates_failures_witness:
  "(\<exists>row. rows_of (runSync flaky (fresh_world [''PL'', ''XX'', ''BL1''])) (''competition'', ''PL'') = Some row \<and>
       row_expires_at row = row_cached_at row + CacheTTL flaky \<and>
       row_data_hash row = Some ''c0'') \<and>
   (\<exists>row. rows_of (runSync flaky (fresh_world [''PL'', ''XX'', ''BL1''])) (''competition'', ''BL1'') = Some row \<and>
       row_expires_at row = row_cached_at row + CacheTTL flaky \<and>
       row_data_hash row = Some ''c0'') \<and>
   rows_of (runSync flaky (fresh_world [''PL'', ''XX'', ''BL1''])) (''competition'', ''XX'') = None \<and>
   (\<exists>e. (LevelError, ''Failed to sync competition'', [(''code'', ''XX''), (''error'', e)])
          \<in> set (logs (runSync flaky (fresh_world [''PL'', ''XX'', ''BL1'']))))"
proof -
  let ?w = "fresh_world [''PL'', ''XX'', ''BL1'']"
  let ?x = "\<lparr>comp_ID = 0, comp_Name = [], comp_Code = [], comp_Type = [], comp_Emblem = []\<rparr>"
  let ?cm = "NewCacheManager None \<lparr>db_fault = no_fault, cache_metadata = Map.empty, id_seq = 0\<rparr>"
  let ?comps = "map (\<lambda>code. \<lparr>comp_ID = 0, comp_Name = [], comp_Code = code,
                               comp_Type = [], comp_Emblem = []\<rparr>) [''PL'', ''XX'', ''BL1'']"
  have comps: "fst (getAllCompetitions flaky (slog LevelInfo ''Running scheduled sync'' [] ?w)) = Inr ?comps"
    by (simp add: getAllCompetitions_def slog_def fresh_world_def)
  have dist: "distinct (map comp_Code ?comps)" by simp
  have cm: "cacheManager ?w = Some ?cm" by (simp add: fresh_world_def)
  have stale: "stale ?w ''competition'' code" for code
    by (simp add: stale_def rows_of_def fresh_world_def NewCacheManager_def)
  have rows0: "rows_of ?w key = None" for key
    by (simp add: rows_of_def fresh_world_def NewCacheManager_def)
  have save: "\<forall>t. repo_fault (repo ?w) t (InsertCompetition ?x) = None"
    by (simp add: fresh_world_def)
  have upsert: "\<forall>t e h. db_fault (db ?cm) t (UpsertMetadata ''competition'' code t e h) = None" for code
    by (simp add: NewCacheManager_def)
  have bad: "\<forall>tc. case fst (GetCompetition flaky ''XX'' tc) of
               Inl e \<Rightarrow> True
             | Inr y \<Rightarrow> \<forall>t. repo_fault (repo ?w) t (InsertCompetition y) \<noteq> None"
    by (simp add: flaky_fetch_XX)
  have hPL: "''PL'' \<in> set (map comp_Code ?comps) \<and> stale ?w ''competition'' ''PL'' \<and>
      (\<forall>tc. fst (GetCompetition flaky ''PL'' tc) = Inr ?x) \<and>
      (\<forall>t. repo_fault (repo ?w) t (InsertCompetition ?x) = None) \<and>
      (\<forall>t e h. db_fault (db ?cm) t (UpsertMetadata ''competition'' ''PL'' t e h) = None)"
    using stale save upsert by (simp add: flaky_fetch_ok)
  have hBL: "''BL1'' \<in> set (map comp_Code ?comps) \<and> stale ?w ''competition'' ''BL1'' \<and>
      (\<forall>tc. fst (GetCompetition flaky ''BL1'' tc) = Inr ?x) \<and>
      (\<forall>t. repo_fault (repo ?w) t (InsertCompetition ?x) = None) \<and>
      (\<forall>t e h. db_fault (db ?cm) t (UpsertMetadata ''competition'' ''BL1'' t e h) = None)"
    using stale save upsert by (simp add: flaky_fetch_ok)
  have hXX: "''XX'' \<in> set (map comp_Code ?comps) \<and> stale ?w ''competition'' ''XX'' \<and>
      (\<forall>tc. case fst (GetCompetition flaky ''XX'' tc) of
               Inl e \<Rightarrow> True
             | Inr y \<Rightarrow> \<forall>t. repo_fault (repo ?w) t (InsertCompetition y) \<noteq> None)"
    using stale bad by simp
  note T1 = runSync_isolates_failures [OF comps dist cm, where a = "''PL''" and b = "''XX''" and x = ?x]
  note T2 = runSync_isolates_failures [OF comps dist cm, where a = "''BL1''" and b = "''XX''" and x = ?x]
  from T1 [THEN conjunct1, THEN mp, OF hPL]
  have pl: "\<exists>row. rows_of (runSync flaky ?w) (''competition'', ''PL'') = Some row \<and>
       row_expires_at row = row_cached_at row + CacheTTL flaky \<and>
       row_data_hash row = Some ''c0''"
    by (auto simp: flaky_def calm_def fingerprint_competition_def)
  from T2 [THEN conjunct1, THEN mp, OF hBL]
  have bl: "\<exists>row. rows_of (runSync flaky ?w) (''competition'', ''BL1'') = Some row \<and>
       row_expires_at row = row_cached_at row + CacheTTL flaky \<and>
       row_data_hash row = Some ''c0''"
    by (auto simp: flaky_def calm_def fingerprint_competition_def)
  from T1 [THEN conjunct2, THEN mp, OF hXX]
  have xx: "rows_of (runSync flaky ?w) (''competition'', ''XX'') = None \<and>
     (\<exists>e. (LevelError, ''Failed to sync competition'', [(''code'', ''XX''), (''error'', e)])
          \<in> set (logs (runSync flaky ?w)))"
    by (simp add: rows0)
  from pl bl xx show ?thesis by blast
qed

section \<open>The sync tick: metadata after a failed sync of matches\<close>

lemma markSynced_row:
  assumes cm: "cacheManager w = Some cm"
    and upsert: "\<And>t e h. db_fault (db cm) t (UpsertMetadata entityType c t e h) = None"
  shows "\<exists>row. rows_of (markSynced env entityType c w) (entityType, c) = Some row \<and>
           row_cached_at row = clock w \<and> row_expires_at row = clock w + CacheTTL env \<and>
           row_data_hash row = Some []"
  using cm upsert
  by (cases "cache_metadata (db cm) (entityType, c)")
     (simp_all add: markSynced_def rows_of_def SetMetadata_def Exec_upsert_def Let_def)

lemma stepMatches_marks_whatever_happens:
  assumes need: "needsRefresh w ''matches'' c" and code: "comp_Code x0 = c"
    and cm: "cacheManager w = Some cm"
    and upsert: "\<And>t e h. db_fault (db cm) t (UpsertMetadata ''matches'' c t e h) = None"
  shows "\<exists>row. rows_of (stepMatches env x0 w) (''matches'', c) = Some row \<and>
           clock w \<le> row_cached_at row \<and>
           row_expires_at row = row_cached_at row + CacheTTL env"
proof -
  let ?w1 = "slog LevelInfo ''Syncing matches'' [(''code'', c)] w"
  let ?w3 = "logFailure ''Failed to sync matches'' c (SyncCompetitionMatches env c ?w1)"
  have "frame {} w (snd (SyncCompetitionMatches env c ?w1))"
    by (rule frame0_trans [OF frame_slog frame_SyncCompetitionMatches])
  then have f: "frame {} w ?w3" by (rule frame_logFailure)
  from f cm obtain cm3 where cm3: "cacheManager ?w3 = Some cm3"
    and df: "db_fault (db cm3) = db_fault (db cm)"
    by (rule frame_cacheManager)
  from f have clk: "clock w \<le> clock ?w3" by (simp add: frame_def)
  have "\<exists>row. rows_of (markSynced env ''matches'' c ?w3) (''matches'', c) = Some row \<and>
           row_cached_at row = clock ?w3 \<and> row_expires_at row = clock ?w3 + CacheTTL env \<and>
           row_data_hash row = Some []"
    using cm3 by (rule markSynced_row) (simp add: df upsert)
  with clk need code show ?thesis
    by (auto simp: stepMatches_def Sleep_simps)
qed

text \<open>
  C3 at a failing input. One competition, \<open>PL\<close>, is configured, nothing is recorded yet,
  and the upstream cannot be reached. The tick logs that the sync of the matches failed
  (and stores no match), leaves the competition without a freshness record, but writes
  the record of \<open>("matches", "PL")\<close> with \<open>expires_at\<close> 30 days ahead: an hour later the
  matches of \<open>PL\<close> do not need a refresh.
\<close>

theorem runSync_marks_failed_matches_fresh:
  "(LevelError, ''Failed to sync matches'',
      [(''code'', ''PL''),
       (''error'', ''failed to fetch matches: failed to perform request: connection refused'')])
     \<in> set (logs (runSync offline (fresh_world [''PL'']))) \<and>
   rows_of (runSync offline (fresh_world [''PL''])) (''competition'', ''PL'') = None \<and>
   map_option row_cached_at (rows_of (runSync offline (fresh_world [''PL''])) (''matches'', ''PL''))
     = Some 6000000000 \<and>
   map_option row_expires_at (rows_of (runSync offline (fresh_world [''PL''])) (''matches'', ''PL''))
     = Some 2592006000000000 \<and>
   \<not> needsRefresh ((runSync offline (fresh_world [''PL'']))
         \<lparr>clock := clock (runSync offline (fresh_world [''PL''])) + Hour\<rparr>) ''matches'' ''PL''"
  by code_simp

end
